theory Spec2Isabelle
  imports Main
begin

section \<open>Python values and string helpers\<close>

text \<open>
  The loader \<^verbatim>\<open>batch_import_movies\<close> of \<^verbatim>\<open>batch.py\<close> walks the rows of a data frame
  twice and talks to PostgreSQL through one psycopg2 connection. The rows are modelled as
  records, the database as explicit state, and every exception as a value.

  Text cells are \<open>string option\<close>: \<open>None\<close> is the missing cell (Python \<^verbatim>\<open>None\<close> in the
  columns \<^verbatim>\<open>title\<close> and \<^verbatim>\<open>imdb_id\<close> after lines 19-20, \<^verbatim>\<open>NaN\<close> in the five
  multi-value columns). Characters are code points below 256. A date cell, after line 21,
  is a \<^verbatim>\<open>Timestamp\<close> (year, month, day) or the missing date \<^verbatim>\<open>NaT\<close>.
\<close>

datatype date_cell = NaT | Timestamp int int int

datatype error = IndexError | KeyError | OperationalError | UniqueViolation | ForeignKeyViolation

text \<open>Python's \<^verbatim>\<open>not v\<close> on a text cell: true for \<^verbatim>\<open>None\<close> and for the empty string.\<close>

fun py_not :: "string option \<Rightarrow> bool" where
  "py_not None = True"
| "py_not (Some s) = (s = [])"

text \<open>\<^verbatim>\<open>not v\<close> on a date cell: \<^verbatim>\<open>Timestamp\<close> and \<^verbatim>\<open>NaT\<close> are datetime objects and
  have no \<^verbatim>\<open>__bool__\<close>, so both are truthy.\<close>

fun py_not_date :: "date_cell \<Rightarrow> bool" where
  "py_not_date NaT = False"
| "py_not_date (Timestamp y mo d) = False"

text \<open>\<^verbatim>\<open>.dt.year\<close> of a date cell: \<^verbatim>\<open>NaN\<close> (here \<open>None\<close>) for \<^verbatim>\<open>NaT\<close>.\<close>

fun dt_year :: "date_cell \<Rightarrow> int option" where
  "dt_year NaT = None"
| "dt_year (Timestamp y mo d) = Some y"

text \<open>\<^verbatim>\<open>pd.notna(v)\<close>.\<close>

fun notna :: "string option \<Rightarrow> bool" where
  "notna None = False"
| "notna (Some s) = True"

text \<open>\<^verbatim>\<open>str.isspace\<close> on one character: tab to carriage return, the four separators
  \<^verbatim>\<open>\x1c\<close>-\<^verbatim>\<open>\x1f\<close>, the space, NEL and the no-break space.\<close>

definition isspace :: "char \<Rightarrow> bool" where
  "isspace c = (let n = (of_char c :: nat) in (9 \<le> n \<and> n \<le> 13) \<or> (28 \<le> n \<and> n \<le> 32) \<or> n = 133 \<or> n = 160)"

text \<open>\<^verbatim>\<open>s.strip()\<close>: leading and trailing whitespace removed.\<close>

definition strip :: "string \<Rightarrow> string" where
  "strip s = rev (dropWhile isspace (rev (dropWhile isspace s)))"

text \<open>\<^verbatim>\<open>s.split(sep)\<close> for a one-character separator: always at least one piece.\<close>

fun split :: "char \<Rightarrow> string \<Rightarrow> string list" where
  "split sep [] = [[]]"
| "split sep (c # cs) =
     (if c = sep then [] # split sep cs
      else (c # hd (split sep cs)) # tl (split sep cs))"

text \<open>\<^verbatim>\<open>acc.update(xs)\<close> on a Python set. The set is kept as a duplicate-free list whose
  order stands for the iteration order of the set (first insertion here; Python leaves it
  unspecified).\<close>

fun set_update :: "'a list \<Rightarrow> 'a list \<Rightarrow> 'a list" where
  "set_update acc [] = acc"
| "set_update acc (x # xs) = set_update (if x \<in> set acc then acc else acc @ [x]) xs"

section \<open>Rows of the data frame and of the movie table\<close>

text \<open>
  The sixteen columns copied into the movie tuple (lines 162-181). The twelve columns the
  loader never inspects carry values of an arbitrary type \<open>'v\<close>.
\<close>

record 'v movie_row =
  id' :: int
  title :: "string option"
  vote_average :: 'v
  vote_count :: 'v
  status :: 'v
  release_date :: date_cell
  revenue :: 'v
  runtime :: 'v
  adult :: 'v
  budget :: 'v
  imdb_id :: "string option"
  original_language :: 'v
  original_title :: 'v
  overview :: 'v
  popularity :: 'v
  tagline :: 'v

text \<open>A record of the data frame: the sixteen columns and the five multi-value columns.\<close>

text \<open>(\<open>keywords'\<close> is the column \<^verbatim>\<open>keywords\<close>, \<open>id'\<close> the column \<^verbatim>\<open>id\<close>.)\<close>

record 'v movie = "'v movie_row" +
  genres :: "string option"
  production_companies :: "string option"
  production_countries :: "string option"
  spoken_languages :: "string option"
  keywords' :: "string option"

datatype category = Genres | Companies | Countries | Languages | Keywords

text \<open>The column of the data frame that feeds each category (lines 184-204, 220-249).\<close>

fun field :: "category \<Rightarrow> 'v movie \<Rightarrow> string option" where
  "field Genres m = genres m"
| "field Companies m = production_companies m"
| "field Countries m = production_countries m"
| "field Languages m = spoken_languages m"
| "field Keywords m = keywords' m"

section \<open>The database behind the connection\<close>

text \<open>
  Modelled from the spec: the schema is not part of the source file. Section 6 of the
  specification gives its logical surface: a movie table with a primary key and a unique
  external reference code, five reference tables keyed by a generated identifier with a
  unique string column, five join tables with a composite uniqueness constraint on (movie
  id, entity id) and foreign keys into the movie table and the reference table.

  \<open>t_ref c\<close> is the reference table of category \<open>c\<close> (\<^verbatim>\<open>genres\<close>, \<^verbatim>\<open>companies\<close>,
  \<^verbatim>\<open>countries\<close>, \<^verbatim>\<open>languages\<close>, \<^verbatim>\<open>keywords\<close>) as rows (id, value); \<open>t_link c\<close> is its
  join table (\<^verbatim>\<open>_MovieGenres\<close>, ...) as rows (movie id, entity id).
\<close>

record 'v tables =
  t_movies :: "'v movie_row list"
  t_ref :: "category \<Rightarrow> (int \<times> string) list"
  t_link :: "category \<Rightarrow> (int \<times> int) list"

text \<open>
  A connection: the committed tables, the tables as the open transaction sees them, the
  sequences that generate reference identifiers (never rolled back), and the fault plan of
  the server. Each statement and each commit takes the head of the plan; \<open>True\<close> makes it
  raise. The empty plan is the server that never fails by itself.
\<close>

record 'v connection =
  committed :: "'v tables"
  pending :: "'v tables"
  seq :: "category \<Rightarrow> int"
  plan :: "bool list"

definition tick :: "'v connection \<Rightarrow> 'v connection \<times> bool" where
  "tick c = (case plan c of [] \<Rightarrow> (c, False) | b # bs \<Rightarrow> (c\<lparr>plan := bs\<rparr>, b))"

text \<open>\<^verbatim>\<open>connection.commit()\<close> and \<^verbatim>\<open>connection.rollback()\<close>. A rollback is taken not
  to raise.\<close>

definition commit :: "'v connection \<Rightarrow> 'v connection \<times> (error + unit)" where
  "commit c = (case tick c of
      (c', True) \<Rightarrow> (c', Inl OperationalError)
    | (c', False) \<Rightarrow> (c'\<lparr>committed := pending c'\<rparr>, Inr ()))"

definition rollback :: "'v connection \<Rightarrow> 'v connection" where
  "rollback c = c\<lparr>pending := committed c\<rparr>"

text \<open>\<^verbatim>\<open>cursor.execute("SELECT ...")\<close> followed by \<^verbatim>\<open>cursor.fetchall()\<close>.\<close>

definition execute_select :: "('v tables \<Rightarrow> 'o) \<Rightarrow> 'v connection \<Rightarrow> 'v connection \<times> (error + 'o)" where
  "execute_select q c = (case tick c of
      (c', True) \<Rightarrow> (c', Inl OperationalError)
    | (c', False) \<Rightarrow> (c', Inr (q (pending c'))))"

subsection \<open>The three INSERT statements, one VALUES row at a time\<close>

text \<open>
  Modelled from the spec: the primary key on the id of the movie table (section 6; the
  schema is not in the source). The statement is that of lines 91-98,
  \<^verbatim>\<open>INSERT INTO movies (...) VALUES ... ON CONFLICT (imdb_id) DO NOTHING RETURNING id\<close>:
  a row whose reference code is already in the table is skipped; any other row whose id is
  taken violates the primary key.
\<close>

definition insert_movie :: "'v movie_row \<Rightarrow> 'v connection \<Rightarrow> 'v connection \<times> (error + int list)" where
  "insert_movie r c =
     (let t = pending c in
      if imdb_id r \<noteq> None \<and> imdb_id r \<in> set (map imdb_id (t_movies t)) then (c, Inr [])
      else if id' r \<in> set (map id' (t_movies t)) then (c, Inl UniqueViolation)
      else (c\<lparr>pending := t\<lparr>t_movies := t_movies t @ [r]\<rparr>\<rparr>, Inr [id' r]))"

text \<open>
  Modelled from the spec: the generated identifier and the primary key of a reference table
  (section 6). The statement is that of lines 65-70,
  \<^verbatim>\<open>INSERT INTO "table" (col) VALUES ... ON CONFLICT (col) DO NOTHING RETURNING id, col\<close>:
  the identifier is drawn from the sequence before the conflict check, a value already in
  the table is skipped and returns no row.
\<close>

definition insert_ref :: "category \<Rightarrow> string \<Rightarrow> 'v connection \<Rightarrow> 'v connection \<times> (error + (int \<times> string) list)" where
  "insert_ref tab v c =
     (let t = pending c; i = seq c tab; c' = c\<lparr>seq := (seq c)(tab := i + 1)\<rparr> in
      if v \<in> set (map snd (t_ref t tab)) then (c', Inr [])
      else if i \<in> set (map fst (t_ref t tab)) then (c', Inl UniqueViolation)
      else (c'\<lparr>pending := t\<lparr>t_ref := (t_ref t)(tab := t_ref t tab @ [(i, v)])\<rparr>\<rparr>, Inr [(i, v)]))"

text \<open>
  Modelled from the spec: the composite uniqueness constraint and the two foreign keys of a
  join table (section 6). The statement is that of lines 129-133,
  \<^verbatim>\<open>INSERT INTO "table" (movie_id, x_id) VALUES ... ON CONFLICT DO NOTHING\<close>: an edge
  already there is skipped; an edge with a dangling endpoint violates a foreign key.
\<close>

definition insert_link :: "category \<Rightarrow> int \<times> int \<Rightarrow> 'v connection \<Rightarrow> 'v connection \<times> (error + unit list)" where
  "insert_link tab rel c =
     (let t = pending c in
      if rel \<in> set (t_link t tab) then (c, Inr [])
      else if fst rel \<notin> set (map id' (t_movies t)) \<or> snd rel \<notin> set (map fst (t_ref t tab))
        then (c, Inl ForeignKeyViolation)
      else (c\<lparr>pending := t\<lparr>t_link := (t_link t)(tab := t_link t tab @ [rel])\<rparr>\<rparr>, Inr []))"

text \<open>The rows of one statement, in order; the first failing row fails the statement (and
  the transaction: every caller rolls back on an error).\<close>

fun insert_rows :: "('r \<Rightarrow> 'v connection \<Rightarrow> 'v connection \<times> (error + 'o list)) \<Rightarrow> 'r list
    \<Rightarrow> 'v connection \<Rightarrow> 'v connection \<times> (error + 'o list)" where
  "insert_rows f [] c = (c, Inr [])"
| "insert_rows f (r # rs) c =
     (case f r c of
        (c', Inl e) \<Rightarrow> (c', Inl e)
      | (c', Inr out) \<Rightarrow>
          (case insert_rows f rs c' of
             (c'', Inl e) \<Rightarrow> (c'', Inl e)
           | (c'', Inr outs) \<Rightarrow> (c'', Inr (out @ outs))))"

text \<open>\<^verbatim>\<open>cursor.execute\<close> of one INSERT statement; its RETURNING rows become the result set
  of the cursor.\<close>

definition cursor_execute :: "('r \<Rightarrow> 'v connection \<Rightarrow> 'v connection \<times> (error + 'o list)) \<Rightarrow> 'r list
    \<Rightarrow> 'v connection \<Rightarrow> 'v connection \<times> (error + 'o list)" where
  "cursor_execute f rows c = (case tick c of
      (c', True) \<Rightarrow> (c', Inl OperationalError)
    | (c', False) \<Rightarrow> insert_rows f rows c')"

subsection \<open>\<^verbatim>\<open>psycopg2.extras.execute_values\<close>\<close>

text \<open>
  \<^verbatim>\<open>execute_values(cur, sql, argslist, template=None, page_size=n)\<close> cuts \<open>argslist\<close> into
  pages of at most \<open>n\<close> rows and executes one statement per page; with \<^verbatim>\<open>fetch\<close> left at
  \<^verbatim>\<open>False\<close> it collects nothing, so a later \<^verbatim>\<open>cursor.fetchall()\<close> sees the result set of
  the last statement only. A page size below one makes the first page empty and
  \<^verbatim>\<open>page[0]\<close> raise \<^verbatim>\<open>IndexError\<close> (\<open>0\<close> stands for every such size).
\<close>

function paginate :: "nat \<Rightarrow> 'a list \<Rightarrow> 'a list list" where
  "paginate n xs = (if n = 0 \<or> xs = [] then [] else take n xs # paginate n (drop n xs))"
  by pat_completeness auto
termination
  by (relation "measure (\<lambda>(n, xs). length xs)") auto

declare paginate.simps [simp del]

fun execute_pages :: "('r \<Rightarrow> 'v connection \<Rightarrow> 'v connection \<times> (error + 'o list)) \<Rightarrow> 'r list list
    \<Rightarrow> 'o list \<Rightarrow> 'v connection \<Rightarrow> 'v connection \<times> (error + 'o list)" where
  "execute_pages f [] res c = (c, Inr res)"
| "execute_pages f (page # pages) res c =
     (case cursor_execute f page c of
        (c', Inl e) \<Rightarrow> (c', Inl e)
      | (c', Inr res') \<Rightarrow> execute_pages f pages res' c')"

definition execute_values :: "('r \<Rightarrow> 'v connection \<Rightarrow> 'v connection \<times> (error + 'o list)) \<Rightarrow> 'r list
    \<Rightarrow> nat \<Rightarrow> 'v connection \<Rightarrow> 'v connection \<times> (error + 'o list)" where
  "execute_values f argslist page_size c =
     (if page_size = 0 then (c, Inl IndexError)
      else execute_pages f (paginate page_size argslist) [] c)"

section \<open>The three storage functions of the loader\<close>

text \<open>The dictionary updates \<^verbatim>\<open>id_mapping[row[1]] = row[0]\<close> over fetched rows (lines
  59-60 and 75-76).\<close>

fun merge_rows :: "(int \<times> string) list \<Rightarrow> (string \<rightharpoonup> int) \<Rightarrow> (string \<rightharpoonup> int)" where
  "merge_rows [] id_mapping = id_mapping"
| "merge_rows (row # rows) id_mapping = merge_rows rows (id_mapping(snd row \<mapsto> fst row))"

text \<open>
  The body of the \<^verbatim>\<open>try\<close> of \<^verbatim>\<open>batch_insert_data\<close> (lines 57-76). \<open>id_mapping\<close> is a
  local that outlives an exception, so the body returns it next to the error, if any.
  \<open>data\<close> lists the value set in its iteration order.
\<close>

definition batch_insert_data_try :: "nat \<Rightarrow> string list \<Rightarrow> category \<Rightarrow> 'v connection
    \<Rightarrow> 'v connection \<times> (string \<rightharpoonup> int) \<times> error option" where
  "batch_insert_data_try batch_size data table c =
     (case execute_select (\<lambda>t. t_ref t table) c of
        (c1, Inl e) \<Rightarrow> (c1, Map.empty, Some e)
      | (c1, Inr rows) \<Rightarrow>
          (let id_mapping = merge_rows rows Map.empty;
               new_values = filter (\<lambda>value. id_mapping value = None) data
           in if new_values \<noteq> [] then
                (case execute_values (insert_ref table) new_values batch_size c1 of
                   (c2, Inl e) \<Rightarrow> (c2, id_mapping, Some e)
                 | (c2, Inr res) \<Rightarrow>
                     (case commit c2 of
                        (c3, Inl e) \<Rightarrow> (c3, id_mapping, Some e)
                      | (c3, Inr u) \<Rightarrow> (c3, merge_rows res id_mapping, None)))
              else (c1, id_mapping, None)))"

text \<open>\<^verbatim>\<open>batch_insert_data\<close> (lines 46-82): the \<^verbatim>\<open>except\<close> rolls back; the mapping is
  returned either way.\<close>

definition batch_insert_data :: "nat \<Rightarrow> string list \<Rightarrow> category \<Rightarrow> 'v connection
    \<Rightarrow> 'v connection \<times> (string \<rightharpoonup> int)" where
  "batch_insert_data batch_size data table c =
     (case batch_insert_data_try batch_size data table c of
        (c', id_mapping, Some e) \<Rightarrow> (rollback c', id_mapping)
      | (c', id_mapping, None) \<Rightarrow> (c', id_mapping))"

text \<open>The body of the \<^verbatim>\<open>try\<close> of \<^verbatim>\<open>batch_insert_movies\<close> (lines 91-106).\<close>

definition batch_insert_movies_try :: "nat \<Rightarrow> 'v movie_row list \<Rightarrow> 'v connection
    \<Rightarrow> 'v connection \<times> (error + int set)" where
  "batch_insert_movies_try batch_size movies c =
     (case execute_values insert_movie movies batch_size c of
        (c1, Inl e) \<Rightarrow> (c1, Inl e)
      | (c1, Inr res) \<Rightarrow>
          (case commit c1 of
             (c2, Inl e) \<Rightarrow> (c2, Inl e)
           | (c2, Inr u) \<Rightarrow>
               (case execute_select (\<lambda>t. map id' (t_movies t)) c2 of
                  (c3, Inl e) \<Rightarrow> (c3, Inl e)
                | (c3, Inr rows) \<Rightarrow> (c3, Inr (set rows)))))"

text \<open>\<^verbatim>\<open>batch_insert_movies\<close> (lines 84-111).\<close>

definition batch_insert_movies :: "nat \<Rightarrow> 'v movie_row list \<Rightarrow> 'v connection
    \<Rightarrow> 'v connection \<times> int set" where
  "batch_insert_movies batch_size movies c =
     (case batch_insert_movies_try batch_size movies c of
        (c', Inl e) \<Rightarrow> (rollback c', {})
      | (c', Inr ids) \<Rightarrow> (c', ids))"

text \<open>The body of the \<^verbatim>\<open>try\<close> of \<^verbatim>\<open>batch_insert_relationships\<close> (lines 126-137).\<close>

definition batch_insert_relationships_try :: "nat \<Rightarrow> (int \<times> int) list \<Rightarrow> category \<Rightarrow> int set
    \<Rightarrow> 'v connection \<Rightarrow> 'v connection \<times> (error + unit)" where
  "batch_insert_relationships_try batch_size relationships table valid_movie_ids c =
     (let relationships' = filter (\<lambda>rel. fst rel \<in> valid_movie_ids) relationships in
      case execute_values (insert_link table) relationships' batch_size c of
        (c1, Inl e) \<Rightarrow> (c1, Inl e)
      | (c1, Inr res) \<Rightarrow> commit c1)"

text \<open>\<^verbatim>\<open>batch_insert_relationships\<close> (lines 113-140).\<close>

definition batch_insert_relationships :: "nat \<Rightarrow> (int \<times> int) list \<Rightarrow> category \<Rightarrow> int set
    \<Rightarrow> 'v connection \<Rightarrow> 'v connection" where
  "batch_insert_relationships batch_size relationships table valid_movie_ids c =
     (case batch_insert_relationships_try batch_size relationships table valid_movie_ids c of
        (c', Inl e) \<Rightarrow> rollback c'
      | (c', Inr u) \<Rightarrow> c')"

section \<open>The two passes over the records\<close>

text \<open>
  Lines 24-26: the rows whose release year is at least \<^verbatim>\<open>current_year - 10\<close> stay.
  \<^verbatim>\<open>current_year\<close> is the year of \<^verbatim>\<open>datetime.now()\<close>; a comparison with \<^verbatim>\<open>NaN\<close> is
  false, so a row without date goes.
\<close>

definition recent :: "int \<Rightarrow> 'v movie list \<Rightarrow> 'v movie list" where
  "recent current_year df =
     (let min_year = current_year - 10 in
      filter (\<lambda>m. case dt_year (release_date m) of None \<Rightarrow> False | Some y \<Rightarrow> y \<ge> min_year) df)"

text \<open>The movie tuple of lines 162-181.\<close>

definition movie_tuple :: "'v movie \<Rightarrow> 'v movie_row" where
  "movie_tuple m = \<lparr> id' = id' m, title = title m, vote_average = vote_average m,
     vote_count = vote_count m, status = status m, release_date = release_date m,
     revenue = revenue m, runtime = runtime m, adult = adult m, budget = budget m,
     imdb_id = imdb_id m, original_language = original_language m,
     original_title = original_title m, overview = overview m, popularity = popularity m,
     tagline = tagline m \<rparr>"

text \<open>The guard of line 158, negated: the record is not skipped.\<close>

definition admissible :: "'v movie \<Rightarrow> bool" where
  "admissible m = (\<not> (py_not (title m) \<or> py_not (imdb_id m) \<or> py_not_date (release_date m)))"

text \<open>Lines 184-204 for one category: the trimmed pieces of a present field go into the
  accumulator.\<close>

definition collect_field :: "string option \<Rightarrow> string list \<Rightarrow> string list" where
  "collect_field v acc = (if notna v then set_update acc (map strip (split CHR '','' (the v))) else acc)"

text \<open>One iteration of the first loop (lines 157-204) on the list \<open>movies\<close> and the five
  accumulators.\<close>

definition collect_step :: "'v movie \<Rightarrow> 'v movie_row list \<times> (category \<Rightarrow> string list)
    \<Rightarrow> 'v movie_row list \<times> (category \<Rightarrow> string list)" where
  "collect_step m st =
     (if \<not> admissible m then st
      else (fst st @ [movie_tuple m], \<lambda>cat. collect_field (field cat m) (snd st cat)))"

definition collect :: "'v movie list \<Rightarrow> 'v movie_row list \<times> (category \<Rightarrow> string list)" where
  "collect df = fold collect_step df ([], \<lambda>cat. [])"

text \<open>\<^verbatim>\<open>d[k]\<close> on a dictionary raises \<^verbatim>\<open>KeyError\<close> for an absent key.\<close>

definition getitem :: "(string \<rightharpoonup> int) \<Rightarrow> string \<Rightarrow> error + int" where
  "getitem d k = (case d k of None \<Rightarrow> Inl KeyError | Some v \<Rightarrow> Inr v)"

text \<open>The generator of lines 222-224 (and its four siblings): one edge for every piece
  whose trimmed value is a key of the mapping.\<close>

fun edges_of :: "int \<Rightarrow> (string \<rightharpoonup> int) \<Rightarrow> string list \<Rightarrow> error + (int \<times> int) list" where
  "edges_of mid ids [] = Inr []"
| "edges_of mid ids (g # gs) =
     (if ids (strip g) \<noteq> None then
        (case getitem ids (strip g) of
           Inl e \<Rightarrow> Inl e
         | Inr i \<Rightarrow> (case edges_of mid ids gs of Inl e \<Rightarrow> Inl e | Inr es \<Rightarrow> Inr ((mid, i) # es)))
      else edges_of mid ids gs)"

text \<open>The second loop (lines 217-249) for one category: every record of the data frame,
  whether or not the first loop skipped it.\<close>

fun build_relationships :: "(string \<rightharpoonup> int) \<Rightarrow> category \<Rightarrow> 'v movie list \<Rightarrow> error + (int \<times> int) list" where
  "build_relationships ids cat [] = Inr []"
| "build_relationships ids cat (m # ms) =
     (case (if notna (field cat m) then edges_of (id' m) ids (split CHR '','' (the (field cat m))) else Inr []) of
        Inl e \<Rightarrow> Inl e
      | Inr es \<Rightarrow> (case build_relationships ids cat ms of Inl e \<Rightarrow> Inl e | Inr rest \<Rightarrow> Inr (es @ rest)))"

section \<open>The loader\<close>

text \<open>Lines 206-214: the movie upsert, then the five resolvers in the order of the source.
  The result keeps the set of valid movie ids and the five mappings.\<close>

definition insert_entities :: "nat \<Rightarrow> 'v movie_row list \<Rightarrow> (category \<Rightarrow> string list) \<Rightarrow> 'v connection
    \<Rightarrow> 'v connection \<times> int set \<times> (category \<Rightarrow> (string \<rightharpoonup> int))" where
  "insert_entities batch_size movies alls c =
     (case batch_insert_movies batch_size movies c of (c1, valid_movie_ids) \<Rightarrow>
     (case batch_insert_data batch_size (alls Genres) Genres c1 of (c2, genre_ids) \<Rightarrow>
     (case batch_insert_data batch_size (alls Companies) Companies c2 of (c3, company_ids) \<Rightarrow>
     (case batch_insert_data batch_size (alls Countries) Countries c3 of (c4, country_ids) \<Rightarrow>
     (case batch_insert_data batch_size (alls Languages) Languages c4 of (c5, language_ids) \<Rightarrow>
     (case batch_insert_data batch_size (alls Keywords) Keywords c5 of (c6, keyword_ids) \<Rightarrow>
        (c6, valid_movie_ids,
         (\<lambda>cat. (case cat of Genres \<Rightarrow> genre_ids | Companies \<Rightarrow> company_ids
            | Countries \<Rightarrow> country_ids | Languages \<Rightarrow> language_ids | Keywords \<Rightarrow> keyword_ids)))))))))"

text \<open>Lines 217-249: the five relationship lists. An exception in any of them leaves the
  loop, whichever category raised it.\<close>

definition build_all :: "(category \<Rightarrow> (string \<rightharpoonup> int)) \<Rightarrow> 'v movie list
    \<Rightarrow> error + (category \<Rightarrow> (int \<times> int) list)" where
  "build_all ids df =
     (case build_relationships (ids Genres) Genres df of Inl e \<Rightarrow> Inl e | Inr genre_relationships \<Rightarrow>
     (case build_relationships (ids Companies) Companies df of Inl e \<Rightarrow> Inl e | Inr company_relationships \<Rightarrow>
     (case build_relationships (ids Countries) Countries df of Inl e \<Rightarrow> Inl e | Inr country_relationships \<Rightarrow>
     (case build_relationships (ids Languages) Languages df of Inl e \<Rightarrow> Inl e | Inr language_relationships \<Rightarrow>
     (case build_relationships (ids Keywords) Keywords df of Inl e \<Rightarrow> Inl e | Inr keyword_relationships \<Rightarrow>
        Inr (\<lambda>cat. (case cat of Genres \<Rightarrow> genre_relationships | Companies \<Rightarrow> company_relationships
            | Countries \<Rightarrow> country_relationships | Languages \<Rightarrow> language_relationships
            | Keywords \<Rightarrow> keyword_relationships)))))))"

text \<open>Lines 252-282: the five join tables, in the order of the source.\<close>

definition insert_relationships :: "nat \<Rightarrow> (category \<Rightarrow> (int \<times> int) list) \<Rightarrow> int set \<Rightarrow> 'v connection
    \<Rightarrow> 'v connection" where
  "insert_relationships batch_size rels valid_movie_ids c =
     batch_insert_relationships batch_size (rels Keywords) Keywords valid_movie_ids
      (batch_insert_relationships batch_size (rels Languages) Languages valid_movie_ids
        (batch_insert_relationships batch_size (rels Countries) Countries valid_movie_ids
          (batch_insert_relationships batch_size (rels Companies) Companies valid_movie_ids
            (batch_insert_relationships batch_size (rels Genres) Genres valid_movie_ids c))))"

text \<open>\<^verbatim>\<open>connection.close()\<close> drops whatever the open transaction holds.\<close>

definition close_connection :: "'v connection \<Rightarrow> 'v connection" where
  "close_connection c = c\<lparr>pending := committed c\<rparr>"

text \<open>
  \<^verbatim>\<open>batch_import_movies\<close> from line 142 on, for the filtered data frame \<open>df\<close> and a
  connection that has just been opened. The outer \<^verbatim>\<open>except\<close> (lines 286-288) rolls back;
  \<^verbatim>\<open>finally\<close> closes the connection.
\<close>

definition batch_import_movies :: "nat \<Rightarrow> 'v movie list \<Rightarrow> 'v connection \<Rightarrow> 'v connection" where
  "batch_import_movies batch_size df c =
     (case collect df of (movies, alls) \<Rightarrow>
      case insert_entities batch_size movies alls c of (c6, valid_movie_ids, ids) \<Rightarrow>
        close_connection
          (case build_all ids df of
             Inl e \<Rightarrow> rollback c6
           | Inr rels \<Rightarrow> insert_relationships batch_size rels valid_movie_ids c6))"

text \<open>The empty database, and a fresh connection to a database with the given committed
  tables and sequences.\<close>

definition empty_tables :: "'v tables" where
  "empty_tables = \<lparr> t_movies = [], t_ref = (\<lambda>cat. []), t_link = (\<lambda>cat. []) \<rparr>"

definition connect :: "'v tables \<Rightarrow> (category \<Rightarrow> int) \<Rightarrow> bool list \<Rightarrow> 'v connection" where
  "connect t s p = \<lparr> committed = t, pending = t, seq = s, plan = p \<rparr>"

section \<open>Notions used in the statements\<close>

text \<open>The trimmed pieces of the field of one record for a category (none for a missing
  field), and the edges the second loop emits for one record: one per piece whose trimmed
  value is a key of the mapping.\<close>

definition pieces :: "category \<Rightarrow> 'v movie \<Rightarrow> string list" where
  "pieces cat m = (case field cat m of None \<Rightarrow> [] | Some s \<Rightarrow> map strip (split CHR '','' s))"

definition record_edges :: "(string \<rightharpoonup> int) \<Rightarrow> category \<Rightarrow> 'v movie \<Rightarrow> (int \<times> int) list" where
  "record_edges ids cat m = (case field cat m of None \<Rightarrow> []
     | Some s \<Rightarrow> map (\<lambda>g. (id' m, the (ids (strip g)))) (filter (\<lambda>g. ids (strip g) \<noteq> None) (split CHR '','' s)))"

text \<open>The bulk insert of \<^verbatim>\<open>batch_insert_movies\<close> fails: \<^verbatim>\<open>execute_values\<close> raises, or
  the commit that follows it does (lines 99-102).\<close>

definition movie_insert_fails :: "nat \<Rightarrow> 'v movie_row list \<Rightarrow> 'v connection \<Rightarrow> bool" where
  "movie_insert_fails batch_size movies c =
     (case execute_values insert_movie movies batch_size c of
        (c1, Inl e) \<Rightarrow> True
      | (c1, Inr res) \<Rightarrow> (case commit c1 of (c2, Inl e) \<Rightarrow> True | (c2, Inr u) \<Rightarrow> False))"

text \<open>A later run opens a new connection to the database the earlier run left behind.\<close>

definition reopen :: "'v connection \<Rightarrow> 'v connection" where
  "reopen c = connect (committed c) (seq c) []"

text \<open>The sequence of a reference table is ahead of every identifier in the table, so the
  next generated identifier is new.\<close>

definition fresh_seq :: "'v connection \<Rightarrow> category \<Rightarrow> bool" where
  "fresh_seq c tab = (\<forall>i \<in> set (map fst (t_ref (pending c) tab)). i < seq c tab)"

text \<open>No table holds two rows with the same key: movie ids and reference codes, the
  identifiers and values of each reference table, the edges of each join table.\<close>

definition no_duplicates :: "'v tables \<Rightarrow> bool" where
  "no_duplicates t =
     (distinct (map id' (t_movies t))
      \<and> distinct (filter (\<lambda>k. k \<noteq> None) (map imdb_id (t_movies t)))
      \<and> (\<forall>cat. distinct (map fst (t_ref t cat)) \<and> distinct (map snd (t_ref t cat))
            \<and> distinct (t_link t cat)))"

subsection \<open>Concrete inputs\<close>

text \<open>A record with the given id, title, reference code, genres and production companies;
  it was released on 1 June 2024 and its other multi-value columns are missing.\<close>

definition example_movie :: "int \<Rightarrow> string option \<Rightarrow> string option \<Rightarrow> string option \<Rightarrow> string option \<Rightarrow> unit movie" where
  "example_movie i t k g co = \<lparr> id' = i, title = t, vote_average = (), vote_count = (), status = (),
     release_date = Timestamp 2024 6 1, revenue = (), runtime = (), adult = (), budget = (),
     imdb_id = k, original_language = (), original_title = (), overview = (), popularity = (),
     tagline = (), genres = g, production_companies = co, production_countries = None,
     spoken_languages = None, keywords' = None \<rparr>"

text \<open>A connection to the empty database, and one to a database that already holds the
  movie 1 with reference code \<^verbatim>\<open>tt0\<close> and the genre \<^verbatim>\<open>Drama\<close> with identifier 3.\<close>

definition fresh :: "bool list \<Rightarrow> unit connection" where
  "fresh p = connect empty_tables (\<lambda>cat. 1) p"

definition stocked_tables :: "unit tables" where
  "stocked_tables = \<lparr> t_movies = [movie_tuple (example_movie 1 (Some ''Old'') (Some ''tt0'') None None)],
     t_ref = (\<lambda>cat. if cat = Genres then [(3, ''Drama'')] else []), t_link = (\<lambda>cat. []) \<rparr>"

definition stocked :: "bool list \<Rightarrow> unit connection" where
  "stocked p = connect stocked_tables (\<lambda>cat. 4) p"

definition two_genres :: "unit movie list" where
  "two_genres = [example_movie 1 (Some ''T'') (Some ''tt1'') (Some ''A,B'') None]"

section \<open>Invariants of the storage layer\<close>

text \<open>A property of the connection that every row insert and every step of the fault plan
  preserves is preserved by a statement, by a run of pages and by \<open>execute_values\<close>.\<close>

lemma inv_insert_rows:
  assumes "\<And>r c. r \<in> set rows \<Longrightarrow> P c \<Longrightarrow> P (fst (f r c))" and "P c"
  shows "P (fst (insert_rows f rows c))"
  using assms
proof (induction rows arbitrary: c)
  case Nil
  then show ?case by simp
next
  case (Cons r rs)
  have 1: "P (fst (f r c))" using Cons.prems by simp
  show ?case
  proof (cases "f r c")
    case (Pair c' res)
    with 1 have Pc': "P c'" by simp
    have "P (fst (insert_rows f rs c'))"
      using Cons.IH [of c'] Cons.prems(1) Pc' by simp
    then show ?thesis using Pair Pc' by (auto split: sum.splits prod.splits)
  qed
qed

lemma inv_cursor_execute:
  assumes "\<And>r c. r \<in> set rows \<Longrightarrow> P c \<Longrightarrow> P (fst (f r c))" and "\<And>c p. P c \<Longrightarrow> P (c\<lparr>plan := p\<rparr>)" and "P c"
  shows "P (fst (cursor_execute f rows c))"
proof -
  have "P (fst (tick c))" using assms(2,3) by (auto simp: tick_def split: list.splits)
  then show ?thesis
    using inv_insert_rows [of rows P f "fst (tick c)"] assms(1)
    by (auto simp: cursor_execute_def split: prod.splits bool.splits)
qed

lemma inv_execute_pages:
  assumes "\<And>r c. r \<in> set (concat pages) \<Longrightarrow> P c \<Longrightarrow> P (fst (f r c))" and "\<And>c p. P c \<Longrightarrow> P (c\<lparr>plan := p\<rparr>)" and "P c"
  shows "P (fst (execute_pages f pages res c))"
  using assms
proof (induction pages arbitrary: c res)
  case Nil
  then show ?case by simp
next
  case (Cons page pages)
  have 1: "P (fst (cursor_execute f page c))"
    using inv_cursor_execute [of page P f c] Cons.prems by simp
  show ?case
  proof (cases "cursor_execute f page c")
    case (Pair c' r)
    with 1 have Pc': "P c'" by simp
    show ?thesis
    proof (cases r)
      case (Inl e)
      then show ?thesis using Pair Pc' by simp
    next
      case (Inr res')
      have "P (fst (execute_pages f pages res' c'))"
        using Cons.IH [of c' res'] Cons.prems Pc' by simp
      then show ?thesis using Pair Inr by simp
    qed
  qed
qed

lemma concat_paginate: "0 < n \<Longrightarrow> concat (paginate n xs) = xs"
proof (induction n xs rule: paginate.induct)
  case (1 n xs)
  then show ?case by (subst paginate.simps) auto
qed

lemma inv_execute_values:
  assumes "\<And>r c. r \<in> set rows \<Longrightarrow> P c \<Longrightarrow> P (fst (f r c))" and "\<And>c p. P c \<Longrightarrow> P (c\<lparr>plan := p\<rparr>)" and "P c"
  shows "P (fst (execute_values f rows n c))"
proof (cases "n = 0")
  case True
  then show ?thesis using assms(3) by (simp add: execute_values_def)
next
  case False
  then have "concat (paginate n rows) = rows" by (simp add: concat_paginate)
  then show ?thesis
    using inv_execute_pages [of "paginate n rows" P f c "[]"] assms False
    by (simp add: execute_values_def)
qed

lemma inv_select:
  assumes "\<And>c p. P c \<Longrightarrow> P (c\<lparr>plan := p\<rparr>)" and "P c"
  shows "P (fst (execute_select q c))"
  using assms by (auto simp: execute_select_def tick_def split: list.splits bool.splits)

lemma inv_commit:
  assumes "\<And>c p. P c \<Longrightarrow> P (c\<lparr>plan := p\<rparr>)" and "\<And>c. P c \<Longrightarrow> P (c\<lparr>committed := pending c\<rparr>)" and "P c"
  shows "P (fst (commit c))"
proof (cases "plan c")
  case Nil
  then show ?thesis using assms(2) [OF assms(3)] by (simp add: commit_def tick_def)
next
  case (Cons b bs)
  have 1: "P (c\<lparr>plan := bs\<rparr>)" using assms(1,3) by simp
  show ?thesis using Cons 1 assms(2) [OF 1] by (cases b) (simp_all add: commit_def tick_def)
qed

lemma inv_rollback:
  assumes "\<And>c. P c \<Longrightarrow> P (c\<lparr>pending := committed c\<rparr>)" and "P c"
  shows "P (rollback c)"
  using assms by (simp add: rollback_def)

lemma inv_batch_insert_data:
  assumes step: "\<And>v c. v \<in> set data \<Longrightarrow> P c \<Longrightarrow> P (fst (insert_ref tab v c))"
    and pl: "\<And>c p. P c \<Longrightarrow> P (c\<lparr>plan := p\<rparr>)"
    and com: "\<And>c. P c \<Longrightarrow> P (c\<lparr>committed := pending c\<rparr>)"
    and rb: "\<And>c. P c \<Longrightarrow> P (c\<lparr>pending := committed c\<rparr>)"
    and "P c"
  shows "P (fst (batch_insert_data bs data tab c))"
proof -
  obtain c1 r1 where s1: "execute_select (\<lambda>t. t_ref t tab) c = (c1, r1)" by force
  have P1: "P c1" using inv_select [of P c "\<lambda>t. t_ref t tab"] pl \<open>P c\<close> s1 by simp
  show ?thesis
  proof (cases r1)
    case (Inl e)
    then show ?thesis using s1 P1 inv_rollback [of P c1] rb
      by (simp add: batch_insert_data_def batch_insert_data_try_def)
  next
    case (Inr rows)
    define idm where "idm = merge_rows rows Map.empty"
    define nv where "nv = filter (\<lambda>value. idm value = None) data"
    obtain c2 r2 where s2: "execute_values (insert_ref tab) nv bs c1 = (c2, r2)" by force
    have P2: "P c2"
      using inv_execute_values [of nv P "insert_ref tab" c1 bs] step pl P1 s2 by (simp add: nv_def)
    obtain c3 r3 where s3: "commit c2 = (c3, r3)" by force
    have P3: "P c3" using inv_commit [of P c2] pl com P2 s3 by simp
    show ?thesis using s1 Inr s2 s3 P1 P2 P3 inv_rollback [of P c2] inv_rollback [of P c3] rb
      by (auto simp: batch_insert_data_def batch_insert_data_try_def Let_def idm_def nv_def
          split: sum.splits)
  qed
qed

lemma inv_batch_insert_movies:
  assumes step: "\<And>r c. r \<in> set ms \<Longrightarrow> P c \<Longrightarrow> P (fst (insert_movie r c))"
    and pl: "\<And>c p. P c \<Longrightarrow> P (c\<lparr>plan := p\<rparr>)"
    and com: "\<And>c. P c \<Longrightarrow> P (c\<lparr>committed := pending c\<rparr>)"
    and rb: "\<And>c. P c \<Longrightarrow> P (c\<lparr>pending := committed c\<rparr>)"
    and "P c"
  shows "P (fst (batch_insert_movies bs ms c))"
proof -
  obtain c1 r1 where s1: "execute_values insert_movie ms bs c = (c1, r1)" by force
  have P1: "P c1" using inv_execute_values [of ms P insert_movie c bs] step pl \<open>P c\<close> s1 by simp
  obtain c2 r2 where s2: "commit c1 = (c2, r2)" by force
  have P2: "P c2" using inv_commit [of P c1] pl com P1 s2 by simp
  obtain c3 r3 where s3: "execute_select (\<lambda>t. map id' (t_movies t)) c2 = (c3, r3)" by force
  have P3: "P c3" using inv_select [of P c2 "\<lambda>t. map id' (t_movies t)"] pl P2 s3 by simp
  show ?thesis
    using s1 s2 s3 P1 P2 P3 inv_rollback [of P c1] inv_rollback [of P c2] inv_rollback [of P c3] rb
    by (auto simp: batch_insert_movies_def batch_insert_movies_try_def split: sum.splits)
qed

lemma inv_batch_insert_relationships:
  assumes step: "\<And>r c. r \<in> set rels \<Longrightarrow> fst r \<in> valid \<Longrightarrow> P c \<Longrightarrow> P (fst (insert_link tab r c))"
    and pl: "\<And>c p. P c \<Longrightarrow> P (c\<lparr>plan := p\<rparr>)"
    and com: "\<And>c. P c \<Longrightarrow> P (c\<lparr>committed := pending c\<rparr>)"
    and rb: "\<And>c. P c \<Longrightarrow> P (c\<lparr>pending := committed c\<rparr>)"
    and "P c"
  shows "P (batch_insert_relationships bs rels tab valid c)"
proof -
  define rels' where "rels' = filter (\<lambda>rel. fst rel \<in> valid) rels"
  obtain c1 r1 where s1: "execute_values (insert_link tab) rels' bs c = (c1, r1)" by force
  have P1: "P c1"
    using inv_execute_values [of rels' P "insert_link tab" c bs] step pl \<open>P c\<close> s1
    by (simp add: rels'_def)
  obtain c2 r2 where s2: "commit c1 = (c2, r2)" by force
  have P2: "P c2" using inv_commit [of P c1] pl com P1 s2 by simp
  show ?thesis
    using s1 s2 P1 P2 inv_rollback [of P c1] inv_rollback [of P c2] rb
    by (auto simp: batch_insert_relationships_def batch_insert_relationships_try_def Let_def rels'_def
        split: sum.splits)
qed

section \<open>The two passes\<close>

lemma getitem_present: "ids k \<noteq> None \<Longrightarrow> getitem ids k = Inr (the (ids k))"
  by (auto simp: getitem_def)

lemma edges_of_eq:
  "edges_of mid ids gs = Inr (map (\<lambda>g. (mid, the (ids (strip g)))) (filter (\<lambda>g. ids (strip g) \<noteq> None) gs))"
  by (induction gs) (simp_all add: getitem_present)

lemma build_relationships_eq:
  "build_relationships ids cat df = Inr (concat (map (record_edges ids cat) df))"
proof (induction df)
  case Nil
  then show ?case by simp
next
  case (Cons m ms)
  then show ?case by (cases "field cat m") (simp_all add: edges_of_eq record_edges_def)
qed

lemma build_all_ok: "\<exists>rels. build_all ids df = Inr rels \<and> (\<forall>cat. rels cat = concat (map (record_edges (ids cat) cat) df))"
proof -
  have "\<And>cat rels. (case cat of Genres \<Rightarrow> concat (map (record_edges (ids Genres) Genres) df)
     | Companies \<Rightarrow> concat (map (record_edges (ids Companies) Companies) df)
     | Countries \<Rightarrow> concat (map (record_edges (ids Countries) Countries) df)
     | Languages \<Rightarrow> concat (map (record_edges (ids Languages) Languages) df)
     | Keywords \<Rightarrow> concat (map (record_edges (ids Keywords) Keywords) df)) = concat (map (record_edges (ids cat) cat) df)"
    by (simp split: category.splits)
  then show ?thesis by (simp add: build_all_def build_relationships_eq)
qed

lemma set_set_update: "set (set_update acc xs) = set acc \<union> set xs"
  by (induction xs arbitrary: acc) auto

lemma distinct_set_update: "distinct acc \<Longrightarrow> distinct (set_update acc xs)"
  by (induction xs arbitrary: acc) auto

lemma collect_field_pieces: "collect_field (field cat m) acc = set_update acc (pieces cat m)"
  by (cases "field cat m") (simp_all add: collect_field_def pieces_def)


lemma fold_collect_step_snd:
  "set (snd (fold collect_step df st) cat) = set (snd st cat) \<union> (\<Union>m \<in> set (filter admissible df). set (pieces cat m))"
  by (induction df arbitrary: st) (auto simp: collect_step_def collect_field_pieces set_set_update)

lemma fold_collect_step_filter:
  "fold collect_step df st = fold collect_step (filter admissible df) st"
  by (induction df arbitrary: st) (simp_all add: collect_step_def)


lemma movie_tuple_fields [simp]:
  "title (movie_tuple m) = title m" "imdb_id (movie_tuple m) = imdb_id m"
  "release_date (movie_tuple m) = release_date m" "id' (movie_tuple m) = id' m"
  by (simp_all add: movie_tuple_def)



lemma recent_subset: "set (recent current_year df) \<subseteq> set df"
  by (auto simp: recent_def Let_def)

section \<open>Invariants of the loader\<close>

lemma inv_insert_entities:
  assumes mv: "\<And>r c. r \<in> set ms \<Longrightarrow> P c \<Longrightarrow> P (fst (insert_movie r c))"
    and rf: "\<And>tab v c. P c \<Longrightarrow> P (fst (insert_ref tab v c))"
    and pl: "\<And>c p. P c \<Longrightarrow> P (c\<lparr>plan := p\<rparr>)"
    and com: "\<And>c. P c \<Longrightarrow> P (c\<lparr>committed := pending c\<rparr>)"
    and rb: "\<And>c. P c \<Longrightarrow> P (c\<lparr>pending := committed c\<rparr>)"
    and "P c"
  shows "P (fst (insert_entities bs ms alls c))"
proof -
  define c1 where "c1 = fst (batch_insert_movies bs ms c)"
  define c2 where "c2 = fst (batch_insert_data bs (alls Genres) Genres c1)"
  define c3 where "c3 = fst (batch_insert_data bs (alls Companies) Companies c2)"
  define c4 where "c4 = fst (batch_insert_data bs (alls Countries) Countries c3)"
  define c5 where "c5 = fst (batch_insert_data bs (alls Languages) Languages c4)"
  define c6 where "c6 = fst (batch_insert_data bs (alls Keywords) Keywords c5)"
  have 1: "P c1" unfolding c1_def using inv_batch_insert_movies [of ms P c bs] assms by simp
  have 2: "P c2" unfolding c2_def using inv_batch_insert_data [of _ P Genres c1 bs] rf pl com rb 1 by simp
  have 3: "P c3" unfolding c3_def using inv_batch_insert_data [of _ P Companies c2 bs] rf pl com rb 2 by simp
  have 4: "P c4" unfolding c4_def using inv_batch_insert_data [of _ P Countries c3 bs] rf pl com rb 3 by simp
  have 5: "P c5" unfolding c5_def using inv_batch_insert_data [of _ P Languages c4 bs] rf pl com rb 4 by simp
  have 6: "P c6" unfolding c6_def using inv_batch_insert_data [of _ P Keywords c5 bs] rf pl com rb 5 by simp
  have "fst (insert_entities bs ms alls c) = c6"
    by (simp add: insert_entities_def c1_def c2_def c3_def c4_def c5_def c6_def split: prod.splits)
  then show ?thesis using 6 by simp
qed

lemma insert_entities_valid:
  "fst (snd (insert_entities bs ms alls c)) = snd (batch_insert_movies bs ms c)"
  by (simp add: insert_entities_def split: prod.splits)

lemma inv_insert_relationships:
  assumes lk: "\<And>tab r c. fst r \<in> valid \<Longrightarrow> P c \<Longrightarrow> P (fst (insert_link tab r c))"
    and pl: "\<And>c p. P c \<Longrightarrow> P (c\<lparr>plan := p\<rparr>)"
    and com: "\<And>c. P c \<Longrightarrow> P (c\<lparr>committed := pending c\<rparr>)"
    and rb: "\<And>c. P c \<Longrightarrow> P (c\<lparr>pending := committed c\<rparr>)"
    and "P c"
  shows "P (insert_relationships bs rels valid c)"
proof -
  have step: "\<And>xs tab c. P c \<Longrightarrow> P (batch_insert_relationships bs xs tab valid c)"
    using inv_batch_insert_relationships [of _ valid P] lk pl com rb by simp
  show ?thesis unfolding insert_relationships_def using step \<open>P c\<close> by simp
qed

lemma inv_batch_import_movies:
  assumes mv: "\<And>r c. r \<in> set (fst (collect df)) \<Longrightarrow> P c \<Longrightarrow> P (fst (insert_movie r c))"
    and rf: "\<And>tab v c. P c \<Longrightarrow> P (fst (insert_ref tab v c))"
    and lk: "\<And>tab r c. fst r \<in> snd (batch_insert_movies bs (fst (collect df)) c0) \<Longrightarrow> P c \<Longrightarrow> P (fst (insert_link tab r c))"
    and pl: "\<And>c p. P c \<Longrightarrow> P (c\<lparr>plan := p\<rparr>)"
    and com: "\<And>c. P c \<Longrightarrow> P (c\<lparr>committed := pending c\<rparr>)"
    and rb: "\<And>c. P c \<Longrightarrow> P (c\<lparr>pending := committed c\<rparr>)"
    and "P c0"
  shows "P (batch_import_movies bs df c0)"
proof -
  obtain movies alls where co: "collect df = (movies, alls)" by force
  obtain c6 valid ids where ie: "insert_entities bs movies alls c0 = (c6, valid, ids)"
    by (metis prod_cases3)
  have v: "valid = snd (batch_insert_movies bs (fst (collect df)) c0)"
    using insert_entities_valid [of bs movies alls c0] ie co by simp
  have 6: "P c6" using inv_insert_entities [of movies P c0 bs alls] mv rf pl com rb \<open>P c0\<close> co ie by simp
  have 7: "P (rollback c6)" using inv_rollback [of P c6] rb 6 by simp
  have 8: "\<And>rels. P (insert_relationships bs rels valid c6)"
    using inv_insert_relationships [of valid P c6 bs] lk pl com rb 6 v by simp
  have "P (case build_all ids df of Inl e \<Rightarrow> rollback c6 | Inr rels \<Rightarrow> insert_relationships bs rels valid c6)"
    using 7 8 by (simp split: sum.splits)
  then show ?thesis using co ie rb by (simp add: batch_import_movies_def close_connection_def)
qed


lemma insert_movie_committed: "committed (fst (insert_movie r c)) = committed c"
  by (simp add: insert_movie_def Let_def)

lemma insert_ref_committed: "committed (fst (insert_ref tab v c)) = committed c"
  by (simp add: insert_ref_def Let_def)

lemma insert_link_committed: "committed (fst (insert_link tab r c)) = committed c"
  by (simp add: insert_link_def Let_def)

lemma execute_values_committed:
  assumes "\<And>r c. committed (fst (f r c)) = committed c"
  shows "committed (fst (execute_values f rows n c)) = committed c"
  using inv_execute_values [of rows "\<lambda>x. committed x = committed c" f c n] assms by simp

lemma commit_fails: "commit c = (c', Inl e) \<Longrightarrow> committed c' = committed c"
  by (auto simp: commit_def tick_def split: list.splits bool.splits if_splits)

lemma commit_ok: "commit c = (c', Inr u) \<Longrightarrow> committed c' = pending c \<and> pending c' = pending c \<and> seq c' = seq c"
  by (auto simp: commit_def tick_def split: list.splits bool.splits if_splits)

lemma select_fails: "execute_select q c = (c', Inl e) \<Longrightarrow> committed c' = committed c \<and> pending c' = pending c"
  by (auto simp: execute_select_def tick_def split: list.splits bool.splits if_splits)

lemma select_ok: "execute_select q c = (c', Inr rows) \<Longrightarrow>
    committed c' = committed c \<and> pending c' = pending c \<and> seq c' = seq c \<and> rows = q (pending c)"
  by (auto simp: execute_select_def tick_def split: list.splits bool.splits if_splits)

lemma no_edges_without_movies:
  assumes "pending c = committed c"
  shows "t_link (committed (batch_insert_relationships bs rels tab {} c)) = t_link (committed c)"
proof -
  define P where "P = (\<lambda>x :: 'a connection. t_link (pending x) = t_link (committed c) \<and> t_link (committed x) = t_link (committed c))"
  have "P (batch_insert_relationships bs rels tab {} c)"
  proof (rule inv_batch_insert_relationships)
    show "P c" using assms by (simp add: P_def)
  qed (auto simp: P_def)
  then show ?thesis by (simp add: P_def)
qed

lemma insert_movie_grows:
  assumes "\<exists>ys. t_movies (pending c) = t0 @ ys \<and> (\<forall>y \<in> set ys. imdb_id y = None \<or> imdb_id y \<notin> imdb_id ` set t0)"
  shows "\<exists>ys. t_movies (pending (fst (insert_movie r c))) = t0 @ ys \<and> (\<forall>y \<in> set ys. imdb_id y = None \<or> imdb_id y \<notin> imdb_id ` set t0)"
proof -
  obtain ys where ys: "t_movies (pending c) = t0 @ ys" "\<forall>y \<in> set ys. imdb_id y = None \<or> imdb_id y \<notin> imdb_id ` set t0"
    using assms by blast
  show ?thesis
  proof (cases "imdb_id r \<noteq> None \<and> imdb_id r \<in> set (map imdb_id (t_movies (pending c)))")
    case True
    then show ?thesis using assms by (simp add: insert_movie_def Let_def)
  next
    case False
    then have "imdb_id r = None \<or> imdb_id r \<notin> imdb_id ` set t0" using ys(1) by auto
    then have "t_movies (pending (fst (insert_movie r c))) = t0 @ ys \<or>
      (t_movies (pending (fst (insert_movie r c))) = t0 @ (ys @ [r]) \<and> (\<forall>y \<in> set (ys @ [r]). imdb_id y = None \<or> imdb_id y \<notin> imdb_id ` set t0))"
      using ys False by (auto simp: insert_movie_def Let_def)
    then show ?thesis using ys(2) by blast
  qed
qed


lemma est_insert_rows:
  assumes est: "\<And>r c c' out. f r c = (c', Inr out) \<Longrightarrow> A r c'"
    and mono: "\<And>r r' c. A r c \<Longrightarrow> A r (fst (f r' c))"
    and "insert_rows f rows c = (c', Inr outs)"
  shows "\<forall>r \<in> set rows. A r c'"
  using assms(3)
proof (induction rows arbitrary: c outs)
  case Nil
  then show ?case by simp
next
  case (Cons r rs)
  obtain c1 r1 where s1: "f r c = (c1, r1)" by force
  obtain out where r1: "r1 = Inr out" using Cons.prems s1 by (cases r1) simp_all
  obtain c2 r2 where s2: "insert_rows f rs c1 = (c2, r2)" by force
  obtain outs' where r2: "r2 = Inr outs'" using Cons.prems s1 r1 s2 by (cases r2) simp_all
  have e: "c' = c2" using Cons.prems s1 r1 s2 r2 by simp
  have "A r c1" using est s1 r1 by simp
  then have "A r (fst (insert_rows f rs c1))"
    using inv_insert_rows [of rs "A r" f c1] mono by simp
  then have a: "A r c'" using s2 e by simp
  have "\<forall>x \<in> set rs. A x c'" using Cons.IH [of c1 outs'] s2 r2 e by simp
  then show ?case using a by simp
qed

lemma est_cursor_execute:
  assumes est: "\<And>r c c' out. f r c = (c', Inr out) \<Longrightarrow> A r c'"
    and mono: "\<And>r r' c. A r c \<Longrightarrow> A r (fst (f r' c))"
    and "cursor_execute f rows c = (c', Inr out)"
  shows "\<forall>r \<in> set rows. A r c'"
proof -
  obtain c1 b where t: "tick c = (c1, b)" by force
  have "insert_rows f rows c1 = (c', Inr out)"
    using assms(3) t by (cases b) (simp_all add: cursor_execute_def)
  then show ?thesis using est_insert_rows [of f A rows c1 c' out] est mono by simp
qed

lemma est_execute_pages:
  assumes est: "\<And>r c c' out. f r c = (c', Inr out) \<Longrightarrow> A r c'"
    and mono: "\<And>r r' c. A r c \<Longrightarrow> A r (fst (f r' c))"
    and pl: "\<And>r c p. A r c \<Longrightarrow> A r (c\<lparr>plan := p\<rparr>)"
    and "execute_pages f pages res c = (c', Inr out)"
  shows "\<forall>r \<in> set (concat pages). A r c'"
  using assms(4)
proof (induction pages arbitrary: c res)
  case Nil
  then show ?case by simp
next
  case (Cons page pages)
  obtain c1 r1 where s1: "cursor_execute f page c = (c1, r1)" by force
  obtain res' where r1: "r1 = Inr res'" using Cons.prems s1 by (cases r1) simp_all
  have s2: "execute_pages f pages res' c1 = (c', Inr out)" using Cons.prems s1 r1 by simp
  have a: "\<forall>r \<in> set page. A r c1"
    using est_cursor_execute [of f A page c c1 res'] est mono s1 r1 by simp
  have "\<forall>r \<in> set page. A r c'"
  proof
    fix r assume "r \<in> set page"
    then have "A r c1" using a by simp
    then have "A r (fst (execute_pages f pages res' c1))"
      using inv_execute_pages [of pages "A r" f c1 res'] mono pl by simp
    then show "A r c'" using s2 by simp
  qed
  then show ?case using Cons.IH [of res' c1] s2 by auto
qed

lemma est_execute_values:
  assumes est: "\<And>r c c' out. f r c = (c', Inr out) \<Longrightarrow> A r c'"
    and mono: "\<And>r r' c. A r c \<Longrightarrow> A r (fst (f r' c))"
    and pl: "\<And>r c p. A r c \<Longrightarrow> A r (c\<lparr>plan := p\<rparr>)"
    and "execute_values f rows n c = (c', Inr out)"
  shows "\<forall>r \<in> set rows. A r c'"
proof -
  have n: "0 < n" using assms(4) by (cases "n = 0") (simp_all add: execute_values_def)
  then have "execute_pages f (paginate n rows) [] c = (c', Inr out)"
    using assms(4) by (simp add: execute_values_def)
  then have "\<forall>r \<in> set (concat (paginate n rows)). A r c'"
    using est_execute_pages [of f A "paginate n rows" "[]" c c' out] est mono pl by simp
  then show ?thesis using n by (simp add: concat_paginate)
qed

lemma insert_link_est: "insert_link tab r c = (c', Inr out) \<Longrightarrow> r \<in> set (t_link (pending c') tab)"
  by (auto simp: insert_link_def Let_def split: if_splits)

lemma insert_link_mono:
  "r \<in> set (t_link (pending c) tab) \<Longrightarrow> r \<in> set (t_link (pending (fst (insert_link tab r' c))) tab)"
  by (auto simp: insert_link_def Let_def)

lemma linked_edges_persisted:
  assumes "snd (batch_insert_relationships_try bs rels tab valid (c :: 'v connection)) = Inr u"
    and "r \<in> set rels" and "fst r \<in> valid"
  shows "r \<in> set (t_link (committed (batch_insert_relationships bs rels tab valid c)) tab)"
proof -
  define rels' where "rels' = filter (\<lambda>rel. fst rel \<in> valid) rels"
  obtain c1 r1 where s1: "execute_values (insert_link tab) rels' bs c = (c1, r1)" by force
  obtain res where r1: "r1 = Inr res"
    using assms(1) s1 by (cases r1) (simp_all add: batch_insert_relationships_try_def rels'_def)
  obtain c2 r2 where s2: "commit c1 = (c2, r2)" by force
  have r2: "r2 = Inr u"
    using assms(1) s1 r1 s2 by (simp add: batch_insert_relationships_try_def rels'_def)
  have "\<forall>x \<in> set rels'. x \<in> set (t_link (pending c1) tab)"
  proof (rule est_execute_values [of "insert_link tab" "\<lambda>x c. x \<in> set (t_link (pending c) tab)" rels' bs c c1 res])
    show "execute_values (insert_link tab) rels' bs c = (c1, Inr res)" using s1 r1 by simp
  next
    fix x out and y y' :: "'v connection" assume "insert_link tab x y = (y', Inr out)"
    then show "x \<in> set (t_link (pending y') tab)" by (rule insert_link_est)
  next
    fix x x' and y :: "'v connection" assume "x \<in> set (t_link (pending y) tab)"
    then show "x \<in> set (t_link (pending (fst (insert_link tab x' y))) tab)" by (rule insert_link_mono)
  qed simp
  moreover have "r \<in> set rels'" using assms(2,3) by (simp add: rels'_def)
  ultimately have "r \<in> set (t_link (pending c1) tab)" by blast
  then have "r \<in> set (t_link (committed c2) tab)" using commit_ok [of c1 c2 u] s2 r2 by simp
  then show ?thesis using s1 r1 s2 r2
    by (simp add: batch_insert_relationships_def batch_insert_relationships_try_def rels'_def)
qed

lemma merge_rows_in:
  "merge_rows rows m0 v = Some i \<Longrightarrow> (i, v) \<in> set rows \<or> m0 v = Some i"
proof (induction rows arbitrary: m0)
  case Nil
  then show ?case by simp
next
  case (Cons row rows)
  have "merge_rows rows (m0(snd row \<mapsto> fst row)) v = Some i" using Cons.prems by simp
  then have "(i, v) \<in> set rows \<or> (m0(snd row \<mapsto> fst row)) v = Some i" by (rule Cons.IH)
  then show ?case by (cases row) (auto split: if_splits)
qed

lemma insert_ref_seq: "tab' \<noteq> tab \<Longrightarrow> seq (fst (insert_ref tab v c)) tab' = seq c tab'"
  by (simp add: insert_ref_def Let_def)

section \<open>The pages of \<open>execute_values\<close> and the resolver's mapping\<close>

text \<open>
  On a server that does not fail, with a sequence ahead of the table and a set of values
  that are all new: every value is stored, whatever the page size; the mapping holds the
  values of the last page, so with more values than \<^verbatim>\<open>batch_size\<close> the first value is
  stored and is not a key of the mapping (\<open>mapping_misses_first_page\<close>), and with at most
  \<^verbatim>\<open>batch_size\<close> values every value is a key, mapped to its stored identifier
  (\<open>mapping_complete_in_one_page\<close>).
\<close>

lemma merge_rows_other: "v \<notin> snd ` set rows \<Longrightarrow> merge_rows rows m0 v = m0 v"
  by (induction rows arbitrary: m0) auto

lemma merge_rows_none:
  "m0 v = None \<Longrightarrow> v \<notin> snd ` set rows \<Longrightarrow> merge_rows rows m0 v = None"
  by (simp add: merge_rows_other)

lemma insert_rows_new:
  assumes "distinct vs" and "set vs \<inter> snd ` set (t_ref (pending c) tab) = {}" and "fresh_seq c tab"
  shows "\<exists>c' out. insert_rows (insert_ref tab) vs c = (c', Inr out) \<and> map snd out = vs
    \<and> snd ` set (t_ref (pending c') tab) = snd ` set (t_ref (pending c) tab) \<union> set vs
    \<and> fresh_seq c' tab \<and> plan c' = plan c
    \<and> set out \<subseteq> set (t_ref (pending c') tab)
    \<and> set (t_ref (pending c) tab) \<subseteq> set (t_ref (pending c') tab)"
  using assms
proof (induction vs arbitrary: c)
  case Nil
  then show ?case by simp
next
  case (Cons v vs)
  define c1 where "c1 = fst (insert_ref tab v c)"
  have v: "v \<notin> set (map snd (t_ref (pending c) tab))"
    and i: "seq c tab \<notin> set (map fst (t_ref (pending c) tab))"
    using Cons.prems(2,3) by (auto simp: fresh_seq_def)
  have s1: "insert_ref tab v c = (c1, Inr [(seq c tab, v)])"
    unfolding c1_def using v i by (simp add: insert_ref_def Let_def)
  have t1: "t_ref (pending c1) tab = t_ref (pending c) tab @ [(seq c tab, v)]"
    and q1: "seq c1 tab = seq c tab + 1" and p1: "plan c1 = plan c"
    unfolding c1_def using v i by (simp_all add: insert_ref_def Let_def)
  have f1: "fresh_seq c1 tab" using Cons.prems(3) t1 q1 by (auto simp: fresh_seq_def)
  have d1: "set vs \<inter> snd ` set (t_ref (pending c1) tab) = {}"
    using Cons.prems(1,2) t1 by auto
  have dv: "distinct vs" using Cons.prems(1) by simp
  obtain c' out where r: "insert_rows (insert_ref tab) vs c1 = (c', Inr out)" "map snd out = vs"
    "snd ` set (t_ref (pending c') tab) = snd ` set (t_ref (pending c1) tab) \<union> set vs"
    "fresh_seq c' tab" "plan c' = plan c1"
    "set out \<subseteq> set (t_ref (pending c') tab)"
    "set (t_ref (pending c1) tab) \<subseteq> set (t_ref (pending c') tab)"
    using Cons.IH [OF dv d1 f1] by (elim exE conjE)
  have A: "insert_rows (insert_ref tab) (v # vs) c = (c', Inr ((seq c tab, v) # out))"
    using s1 r(1) by simp
  have B: "map snd ((seq c tab, v) # out) = v # vs" using r(2) by simp
  have C: "snd ` set (t_ref (pending c') tab) = snd ` set (t_ref (pending c) tab) \<union> set (v # vs)"
    using r(3) t1 by auto
  have E: "plan c' = plan c" using r(5) p1 by simp
  have F: "set ((seq c tab, v) # out) \<subseteq> set (t_ref (pending c') tab)" using r(6,7) t1 by auto
  have G: "set (t_ref (pending c) tab) \<subseteq> set (t_ref (pending c') tab)" using r(7) t1 by auto
  show ?case
    by (rule exI [of _ c'], rule exI [of _ "(seq c tab, v) # out"]) (simp only: A B C E F G r(4) simp_thms)
qed

lemma execute_pages_new:
  assumes "distinct (concat pages)" and "set (concat pages) \<inter> snd ` set (t_ref (pending c) tab) = {}"
    and "fresh_seq c tab" and "plan c = []" and "pages \<noteq> []"
  shows "\<exists>c' out. execute_pages (insert_ref tab) pages res c = (c', Inr out) \<and> snd ` set out = set (last pages)
    \<and> snd ` set (t_ref (pending c') tab) = snd ` set (t_ref (pending c) tab) \<union> set (concat pages)
    \<and> plan c' = []"
  using assms
proof (induction pages arbitrary: c res)
  case Nil
  then show ?case by simp
next
  case (Cons page pages)
  have tk: "tick c = (c, False)" using Cons.prems(4) by (simp add: tick_def)
  have dp: "distinct page" using Cons.prems(1) by simp
  have dj0: "set page \<inter> snd ` set (t_ref (pending c) tab) = {}" using Cons.prems(2) by auto
  obtain c1 out1 where r1: "insert_rows (insert_ref tab) page c = (c1, Inr out1)" "map snd out1 = page"
    "snd ` set (t_ref (pending c1) tab) = snd ` set (t_ref (pending c) tab) \<union> set page"
    "fresh_seq c1 tab" "plan c1 = plan c"
    using insert_rows_new [OF dp dj0 Cons.prems(3)] by (elim exE conjE)
  have r1_2: "snd ` set out1 = set page" using r1(2) by (metis set_map)
  have ce: "cursor_execute (insert_ref tab) page c = (c1, Inr out1)"
    using tk r1(1) by (simp add: cursor_execute_def)
  show ?case
  proof (cases "pages = []")
    case True
    have A: "execute_pages (insert_ref tab) (page # pages) res c = (c1, Inr out1)" using ce True by simp
    have B: "snd ` set out1 = set (last (page # pages))" using r1_2 True by simp
    have C: "snd ` set (t_ref (pending c1) tab)
        = snd ` set (t_ref (pending c) tab) \<union> set (concat (page # pages))"
      using r1(3) True by simp
    have E: "plan c1 = []" using r1(5) Cons.prems(4) by simp
    show ?thesis
      by (rule exI [of _ c1], rule exI [of _ out1]) (simp only: A B C E simp_thms)
  next
    case False
    have d: "distinct (concat pages)" using Cons.prems(1) by simp
    have dj: "set (concat pages) \<inter> snd ` set (t_ref (pending c1) tab) = {}"
      using Cons.prems(1,2) r1(3) by auto
    have pl: "plan c1 = []" using r1(5) Cons.prems(4) by simp
    obtain c' out where r: "execute_pages (insert_ref tab) pages out1 c1 = (c', Inr out)"
      "snd ` set out = set (last pages)"
      "snd ` set (t_ref (pending c') tab) = snd ` set (t_ref (pending c1) tab) \<union> set (concat pages)"
      "plan c' = []"
      using Cons.IH [OF d dj r1(4) pl False, of out1] by (elim exE conjE)
    have A: "execute_pages (insert_ref tab) (page # pages) res c = (c', Inr out)" using ce r(1) by simp
    have B: "snd ` set out = set (last (page # pages))" using r(2) False by simp
    have C: "snd ` set (t_ref (pending c') tab)
        = snd ` set (t_ref (pending c) tab) \<union> set (concat (page # pages))"
      using r(3) r1(3) by auto
    show ?thesis
      by (rule exI [of _ c'], rule exI [of _ out]) (simp only: A B C r(4) simp_thms)
  qed
qed

lemma paginate_nonempty: "0 < n \<Longrightarrow> xs \<noteq> [] \<Longrightarrow> paginate n xs \<noteq> []"
  by (subst paginate.simps) simp

lemma last_paginate_subset:
  assumes "0 < n" and "n < length xs"
  shows "set (last (paginate n xs)) \<subseteq> set (drop n xs)"
proof -
  have ne: "drop n xs \<noteq> []" using assms(2) by simp
  have p: "paginate n xs = take n xs # paginate n (drop n xs)"
    using assms by (subst paginate.simps) auto
  have q: "paginate n (drop n xs) \<noteq> []" using paginate_nonempty [OF assms(1) ne] .
  have "last (paginate n xs) = last (paginate n (drop n xs))" using p q by simp
  moreover have "last (paginate n (drop n xs)) \<in> set (paginate n (drop n xs))" using q by simp
  then have "set (last (paginate n (drop n xs))) \<subseteq> set (concat (paginate n (drop n xs)))" by auto
  ultimately show ?thesis using concat_paginate [OF assms(1), of "drop n xs"] by simp
qed

lemma mapping_misses_first_page:
  assumes "pending c = committed c" and "plan c = []" and "fresh_seq c tab"
    and "distinct data" and "set data \<inter> snd ` set (t_ref (committed c) tab) = {}"
    and "0 < bs" and "bs < length data"
  shows "hd data \<in> snd ` set (t_ref (committed (fst (batch_insert_data bs data tab c))) tab)
    \<and> snd (batch_insert_data bs data tab c) (hd data) = None"
proof -
  define rows where "rows = t_ref (pending c) tab"
  define idm where "idm = merge_rows rows Map.empty"
  have tk: "tick c = (c, False)" using assms(2) by (simp add: tick_def)
  have s1: "execute_select (\<lambda>t. t_ref t tab) c = (c, Inr rows)"
    using tk by (simp add: execute_select_def rows_def)
  have none: "\<forall>v \<in> set data. idm v = None"
  proof
    fix v assume "v \<in> set data"
    then have "v \<notin> snd ` set rows" using assms(1,5) by (auto simp: rows_def)
    then show "idm v = None" unfolding idm_def by (simp add: merge_rows_none)
  qed
  then have nv: "filter (\<lambda>value. idm value = None) data = data" by simp
  have dne: "data \<noteq> []" using assms(7) by auto
  have cp: "concat (paginate bs data) = data" using concat_paginate [OF assms(6)] .
  have pne: "paginate bs data \<noteq> []" using paginate_nonempty [OF assms(6) dne] .
  have dc: "distinct (concat (paginate bs data))" using assms(4) cp by simp
  have dj: "set (concat (paginate bs data)) \<inter> snd ` set (t_ref (pending c) tab) = {}"
    using assms(1,5) cp by simp
  obtain c2 out where r: "execute_pages (insert_ref tab) (paginate bs data) [] c = (c2, Inr out)"
    "snd ` set out = set (last (paginate bs data))"
    "snd ` set (t_ref (pending c2) tab) = snd ` set (t_ref (pending c) tab) \<union> set (concat (paginate bs data))"
    "plan c2 = []"
    using execute_pages_new [OF dc dj assms(3,2) pne, of "[]"] by (elim exE conjE)
  have ev: "execute_values (insert_ref tab) data bs c = (c2, Inr out)"
    using r(1) assms(6) by (simp add: execute_values_def)
  have cm: "commit c2 = (c2\<lparr>committed := pending c2\<rparr>, Inr ())"
    using r(4) by (simp add: commit_def tick_def)
  have res: "batch_insert_data bs data tab c = (c2\<lparr>committed := pending c2\<rparr>, merge_rows out idm)"
    using s1 nv dne ev cm
    by (simp add: batch_insert_data_def batch_insert_data_try_def Let_def idm_def [symmetric])
  have hd_in: "hd data \<in> set (take bs data)"
    using dne assms(6) by (cases data; cases bs) simp_all
  have "hd data \<notin> set (drop bs data)"
  proof
    assume "hd data \<in> set (drop bs data)"
    moreover have "distinct (take bs data @ drop bs data)" using assms(4) by simp
    ultimately show False using hd_in by (simp only: distinct_append) blast
  qed
  then have "hd data \<notin> snd ` set out"
    using r(2) last_paginate_subset [OF assms(6,7)] by auto
  moreover have "idm (hd data) = None" using none dne by simp
  ultimately have m: "merge_rows out idm (hd data) = None" by (simp add: merge_rows_none)
  have "hd data \<in> snd ` set (t_ref (pending c2) tab)" using r(3) cp dne by simp
  then show ?thesis using res m by simp
qed


lemma merge_rows_some:
  "distinct (map snd rows) \<Longrightarrow> (i, v) \<in> set rows \<Longrightarrow> merge_rows rows m0 v = Some i"
proof (induction rows arbitrary: m0)
  case Nil
  then show ?case by simp
next
  case (Cons row rows)
  show ?case
  proof (cases "(i, v) \<in> set rows")
    case True
    then show ?thesis using Cons by simp
  next
    case False
    then have row: "row = (i, v)" using Cons.prems(2) by simp
    then have "v \<notin> snd ` set rows" using Cons.prems(1) by simp
    then show ?thesis using row by (simp add: merge_rows_other)
  qed
qed

lemma paginate_one:
  assumes "0 < length xs" and "length xs \<le> n"
  shows "paginate n xs = [xs]"
proof -
  have n: "0 < n" using assms by (cases xs) auto
  have "paginate n xs = take n xs # paginate n (drop n xs)"
    using assms n by (subst paginate.simps) auto
  moreover have "paginate n (drop n xs) = []" using assms(2) by (subst paginate.simps) simp
  ultimately show ?thesis using assms(2) by simp
qed

lemma mapping_complete_in_one_page:
  assumes "pending c = committed c" and "plan c = []" and "fresh_seq c tab"
    and "distinct data" and "set data \<inter> snd ` set (t_ref (committed c) tab) = {}"
    and "data \<noteq> []" and "length data \<le> bs" and "v \<in> set data"
  shows "\<exists>i. snd (batch_insert_data bs data tab c) v = Some i
    \<and> (i, v) \<in> set (t_ref (committed (fst (batch_insert_data bs data tab c))) tab)"
proof -
  define rows where "rows = t_ref (pending c) tab"
  define idm where "idm = merge_rows rows Map.empty"
  have tk: "tick c = (c, False)" using assms(2) by (simp add: tick_def)
  have s1: "execute_select (\<lambda>t. t_ref t tab) c = (c, Inr rows)"
    using tk by (simp add: execute_select_def rows_def)
  have none: "\<forall>v \<in> set data. idm v = None"
  proof
    fix v assume "v \<in> set data"
    then have "v \<notin> snd ` set rows" using assms(1,5) by (auto simp: rows_def)
    then show "idm v = None" unfolding idm_def by (simp add: merge_rows_none)
  qed
  then have nv: "filter (\<lambda>value. idm value = None) data = data" by simp
  have bs: "0 < bs" using assms(6,7) by (cases data) auto
  have pg: "paginate bs data = [data]" using paginate_one [of data bs] assms(6,7) by simp
  have dj: "set data \<inter> snd ` set (t_ref (pending c) tab) = {}" using assms(1,5) by simp
  obtain c2 out where r: "insert_rows (insert_ref tab) data c = (c2, Inr out)" "map snd out = data"
    "plan c2 = plan c" "set out \<subseteq> set (t_ref (pending c2) tab)"
    using insert_rows_new [OF assms(4) dj assms(3)] by (elim exE conjE)
  have ev: "execute_values (insert_ref tab) data bs c = (c2, Inr out)"
    using r(1) bs pg tk by (simp add: execute_values_def cursor_execute_def)
  have cm: "commit c2 = (c2\<lparr>committed := pending c2\<rparr>, Inr ())"
    using r(3) assms(2) by (simp add: commit_def tick_def)
  have res: "batch_insert_data bs data tab c = (c2\<lparr>committed := pending c2\<rparr>, merge_rows out idm)"
    using s1 nv assms(6) ev cm
    by (simp add: batch_insert_data_def batch_insert_data_try_def Let_def idm_def [symmetric])
  have "v \<in> snd ` set out" using assms(8) r(2) by (metis set_map)
  then obtain i where i: "(i, v) \<in> set out" by auto
  have "distinct (map snd out)" using r(2) assms(4) by simp
  then have "merge_rows out idm v = Some i" using i by (rule merge_rows_some)
  moreover have "(i, v) \<in> set (t_ref (pending c2) tab)" using i r(4) by auto
  ultimately show ?thesis using res by simp
qed

section \<open>No run creates a duplicate\<close>

text \<open>Every insert of the loader skips a row whose key is in the table, so a run on a
  database without duplicates leaves none, whatever fails on the way.\<close>

lemma no_duplicates_insert_movie:
  "no_duplicates (pending c) \<Longrightarrow> no_duplicates (pending (fst (insert_movie r c)))"
  by (auto simp: no_duplicates_def insert_movie_def Let_def)

lemma no_duplicates_insert_ref:
  "no_duplicates (pending c) \<Longrightarrow> no_duplicates (pending (fst (insert_ref tab v c)))"
  by (auto simp: no_duplicates_def insert_ref_def Let_def)

lemma no_duplicates_insert_link:
  "no_duplicates (pending c) \<Longrightarrow> no_duplicates (pending (fst (insert_link tab r c)))"
  by (auto simp: no_duplicates_def insert_link_def Let_def)

lemma run_creates_no_duplicates:
  assumes "pending c = committed c" and "no_duplicates (committed c)"
  shows "no_duplicates (committed (batch_import_movies bs df c))"
proof -
  define P where "P = (\<lambda>x :: 'a connection. no_duplicates (pending x) \<and> no_duplicates (committed x))"
  have "P (batch_import_movies bs df c)"
  proof (rule inv_batch_import_movies)
    show "P c" using assms by (simp add: P_def)
  next
    fix r and x :: "'a connection" assume "P x"
    then show "P (fst (insert_movie r x))"
      using no_duplicates_insert_movie [of x r] by (simp add: P_def insert_movie_committed)
  next
    fix tab v and x :: "'a connection" assume "P x"
    then show "P (fst (insert_ref tab v x))"
      using no_duplicates_insert_ref [of x tab v] by (simp add: P_def insert_ref_committed)
  next
    fix tab r and x :: "'a connection" assume "P x"
    then show "P (fst (insert_link tab r x))"
      using no_duplicates_insert_link [of x tab r] by (simp add: P_def insert_link_committed)
  qed (simp_all add: P_def)
  then show ?thesis by (simp add: P_def)
qed

section \<open>Properties of the loader\<close>

text \<open>
  C9. A mention whose trimmed value is not a key of the category's mapping yields no edge and
  no error: the generator gives the same edges as if the mention were not in the field, it
  never raises, and the second loop returns exactly the edges of the resolved mentions of
  every record.
\<close>

theorem dangling_mentions_dropped:
  "(ids (strip g) = None \<longrightarrow> edges_of mid ids (xs @ g # ys) = edges_of mid ids (xs @ ys))
   \<and> (\<exists>es. edges_of mid ids gs = Inr es)
   \<and> build_relationships ids cat df = Inr (concat (map (record_edges ids cat) df))"
  by (simp add: edges_of_eq build_relationships_eq)

text \<open>At a mapping that knows \<^verbatim>\<open>Drama\<close> only, the mention \<^verbatim>\<open>Horror\<close> of movie 1 is dropped
  and the edge of \<^verbatim>\<open>Drama\<close> stays.\<close>

theorem dangling_mentions_dropped_witness:
  "[''Drama'' \<mapsto> (3::int)] (strip '' Horror'') = None
   \<and> edges_of 1 [''Drama'' \<mapsto> 3] [''Drama'', '' Horror''] = Inr [(1, 3)]
   \<and> build_relationships [''Drama'' \<mapsto> 3] Genres
        [example_movie 1 (Some ''T'') (Some ''tt1'') (Some ''Drama, Horror'') None] = Inr [(1, 3)]"
proof -
  let ?ids = "[''Drama'' \<mapsto> (3::int)]"
  let ?df = "[example_movie 1 (Some ''T'') (Some ''tt1'') (Some ''Drama, Horror'') None]"
  have h: "?ids (strip '' Horror'') = None" by code_simp
  have e: "edges_of 1 ?ids ([''Drama''] @ []) = Inr [(1, 3)]" by code_simp
  have r: "concat (map (record_edges ?ids Genres) ?df) = [(1, 3)]" by code_simp
  have t1: "edges_of 1 ?ids ([''Drama''] @ '' Horror'' # []) = edges_of 1 ?ids ([''Drama''] @ [])"
    and t2: "build_relationships ?ids Genres ?df = Inr (concat (map (record_edges ?ids Genres) ?df))"
    using h dangling_mentions_dropped [of ?ids "'' Horror''" 1 "[''Drama'']" "[]" "[]" Genres ?df]
    by blast+
  have c1: "edges_of 1 ?ids [''Drama'', '' Horror''] = Inr [(1, 3)]"
    using t1 [unfolded e] by (simp only: append.simps)
  have c2: "build_relationships ?ids Genres ?df = Inr [(1, 3)]"
    using t2 unfolding r .
  show ?thesis using h c1 c2 by blast
qed

text \<open>
  C3. When the movie upsert of a run returns the empty set, the run leaves all five join
  tables as they were, whatever the resolvers returned and whatever the server does.
\<close>

theorem no_edges_without_valid_movies:
  assumes "pending c = committed c" and "snd (batch_insert_movies bs (fst (collect df)) c) = {}"
  shows "t_link (committed (batch_import_movies bs df c)) = t_link (committed c)"
proof -
  define P where "P = (\<lambda>x :: 'a connection. t_link (pending x) = t_link (committed c) \<and> t_link (committed x) = t_link (committed c))"
  have "P (batch_import_movies bs df c)"
  proof (rule inv_batch_import_movies)
    show "P c" using assms(1) by (simp add: P_def)
  qed (auto simp: P_def insert_movie_def insert_ref_def Let_def assms(2))
  then show ?thesis by (simp add: P_def)
qed

text \<open>The record has the id of the stored movie and a new reference code, so the bulk
  insert violates the primary key and the upsert returns the empty set; the genre resolver
  still maps \<^verbatim>\<open>Drama\<close> to 3, and no edge is stored.\<close>

theorem no_edges_without_valid_movies_witness:
  "pending (stocked []) = committed (stocked [])
   \<and> snd (batch_insert_movies 1000 (fst (collect [example_movie 1 (Some ''New'') (Some ''tt1'') (Some ''Drama'') None])) (stocked [])) = {}
   \<and> snd (batch_insert_data 1000 [''Drama''] Genres (stocked [])) ''Drama'' = Some 3
   \<and> t_link (committed (batch_import_movies 1000 [example_movie 1 (Some ''New'') (Some ''tt1'') (Some ''Drama'') None] (stocked []))) Genres = []"
proof -
  have h1: "pending (stocked []) = committed (stocked [])" by (simp add: stocked_def connect_def)
  have h2: "snd (batch_insert_movies 1000 (fst (collect [example_movie 1 (Some ''New'') (Some ''tt1'') (Some ''Drama'') None])) (stocked [])) = {}"
    by code_simp
  have h3: "snd (batch_insert_data 1000 [''Drama''] Genres (stocked [])) ''Drama'' = Some 3"
    by code_simp
  have "t_link (committed (stocked [])) Genres = []" by (simp add: stocked_def connect_def stocked_tables_def)
  then show ?thesis using h1 h2 h3 no_edges_without_valid_movies [OF h1 h2] by simp
qed



lemma movie_upsert_success:
  assumes "pending c = committed c" and "batch_insert_movies_try bs ms c = (c', Inr ids)"
  shows "ids = set (map id' (t_movies (committed c')))
    \<and> set (map id' (t_movies (committed c))) \<subseteq> ids
    \<and> (\<forall>r0 \<in> set (t_movies (committed c)). imdb_id r0 \<noteq> None \<longrightarrow>
          filter (\<lambda>r. imdb_id r = imdb_id r0) (t_movies (committed c'))
          = filter (\<lambda>r. imdb_id r = imdb_id r0) (t_movies (committed c)))"
proof -
  define t0 where "t0 = t_movies (committed c)"
  define P where "P = (\<lambda>x :: 'a connection. \<exists>ys. t_movies (pending x) = t0 @ ys
      \<and> (\<forall>y \<in> set ys. imdb_id y = None \<or> imdb_id y \<notin> imdb_id ` set t0))"
  obtain c1 r1 where s1: "execute_values insert_movie ms bs c = (c1, r1)" by force
  have "P (fst (execute_values insert_movie ms bs c))"
  proof (rule inv_execute_values)
    show "P c" using assms(1) by (simp add: P_def t0_def)
  next
    fix r x assume "P x" then show "P (fst (insert_movie r x))"
      unfolding P_def by (rule insert_movie_grows)
  qed (simp add: P_def)
  then have P1: "P c1" using s1 by simp
  obtain res where r1: "r1 = Inr res"
    using assms(2) s1 by (cases r1) (simp_all add: batch_insert_movies_try_def)
  obtain c2 r2 where s2: "commit c1 = (c2, r2)" by force
  obtain u where r2: "r2 = Inr u"
    using assms(2) s1 r1 s2 by (cases r2) (simp_all add: batch_insert_movies_try_def)
  obtain c3 r3 where s3: "execute_select (\<lambda>t. map id' (t_movies t)) c2 = (c3, r3)" by force
  obtain rows where r3: "r3 = Inr rows"
    using assms(2) s1 r1 s2 r2 s3 by (cases r3) (simp_all add: batch_insert_movies_try_def)
  have e: "c' = c3" "ids = set rows"
    using assms(2) s1 r1 s2 r2 s3 r3 by (simp_all add: batch_insert_movies_try_def)
  have k2: "committed c2 = pending c1" "pending c2 = pending c1" using commit_ok s2 r2 by blast+
  have k3: "committed c3 = pending c1" "rows = map id' (t_movies (pending c1))"
    using select_ok [OF s3 [unfolded r3]] k2 by simp_all
  obtain ys where ys: "t_movies (pending c1) = t0 @ ys"
      "\<forall>y \<in> set ys. imdb_id y = None \<or> imdb_id y \<notin> imdb_id ` set t0"
    using P1 unfolding P_def by blast
  have 2: "ids = set (map id' (t_movies (committed c')))" using e k3 by simp
  have 3: "set (map id' (t_movies (committed c))) \<subseteq> ids" using e k3 ys(1) by (auto simp: t0_def)
  have 4: "\<forall>r0 \<in> set (t_movies (committed c)). imdb_id r0 \<noteq> None \<longrightarrow>
          filter (\<lambda>r. imdb_id r = imdb_id r0) (t_movies (committed c'))
          = filter (\<lambda>r. imdb_id r = imdb_id r0) (t_movies (committed c))"
  proof (intro ballI impI)
    fix r0 assume r0: "r0 \<in> set (t_movies (committed c))" "imdb_id r0 \<noteq> None"
    have "\<forall>y \<in> set ys. imdb_id y \<noteq> imdb_id r0" using ys(2) r0 by (force simp: t0_def)
    then have "filter (\<lambda>r. imdb_id r = imdb_id r0) ys = []" by (simp add: filter_empty_conv)
    then show "filter (\<lambda>r. imdb_id r = imdb_id r0) (t_movies (committed c'))
          = filter (\<lambda>r. imdb_id r = imdb_id r0) (t_movies (committed c))"
      using e k3 ys(1) by (simp add: t0_def)
  qed
  show ?thesis using 2 3 4 by blast
qed

text \<open>
  C5. When nothing in the \<^verbatim>\<open>try\<close> of the movie upsert raises, the set it returns is the set
  of all ids of the movie table as committed by the call: it contains the id of every row
  that was there before, and for a reference code that was there before the table holds the
  same rows after the call as before it (no row is added for it).
\<close>

theorem movie_upsert_returns_all_ids:
  assumes "pending c = committed c" and "snd (batch_insert_movies_try bs ms c) = Inr ids"
  shows "snd (batch_insert_movies bs ms c) = ids
    \<and> ids = set (map id' (t_movies (committed (fst (batch_insert_movies bs ms c)))))
    \<and> set (map id' (t_movies (committed c))) \<subseteq> ids
    \<and> (\<forall>r0 \<in> set (t_movies (committed c)). imdb_id r0 \<noteq> None \<longrightarrow>
          filter (\<lambda>r. imdb_id r = imdb_id r0) (t_movies (committed (fst (batch_insert_movies bs ms c))))
          = filter (\<lambda>r. imdb_id r = imdb_id r0) (t_movies (committed c)))"
proof -
  obtain c' where t: "batch_insert_movies_try bs ms c = (c', Inr ids)"
    using assms(2) by (cases "batch_insert_movies_try bs ms c") simp
  then have b: "snd (batch_insert_movies bs ms c) = ids" "fst (batch_insert_movies bs ms c) = c'"
    by (simp_all add: batch_insert_movies_def)
  show ?thesis unfolding b using movie_upsert_success [OF assms(1) t] by blast
qed

text \<open>A tuple with the stored reference code \<^verbatim>\<open>tt0\<close> and a new id adds no row, and the
  returned set is the id of the stored movie.\<close>

theorem movie_upsert_returns_all_ids_witness:
  "pending (stocked []) = committed (stocked [])
   \<and> snd (batch_insert_movies_try 1000 [movie_tuple (example_movie 2 (Some ''Again'') (Some ''tt0'') None None)] (stocked [])) = Inr {1}
   \<and> snd (batch_insert_movies 1000 [movie_tuple (example_movie 2 (Some ''Again'') (Some ''tt0'') None None)] (stocked [])) = {1}
   \<and> {1} = set (map id' (t_movies (committed (fst (batch_insert_movies 1000
         [movie_tuple (example_movie 2 (Some ''Again'') (Some ''tt0'') None None)] (stocked []))))))"
proof -
  let ?ms = "[movie_tuple (example_movie 2 (Some ''Again'') (Some ''tt0'') None None)]"
  have h1: "pending (stocked []) = committed (stocked [])" by (simp add: stocked_def connect_def)
  have h2: "snd (batch_insert_movies_try 1000 ?ms (stocked [])) = Inr {1}" by code_simp
  show ?thesis using h1 h2 movie_upsert_returns_all_ids [OF h1 h2] by blast
qed

text \<open>
  C6. When the bulk insert of the movies raises (in \<^verbatim>\<open>execute_values\<close> or in the commit
  after it), the upsert returns the empty set, the committed tables are those of before the
  call and the open transaction holds nothing; with that empty set no call of
  \<^verbatim>\<open>batch_insert_relationships\<close> changes a join table.
\<close>

theorem movie_upsert_failure_rolls_back:
  assumes "movie_insert_fails bs ms c"
  shows "snd (batch_insert_movies bs ms c) = {}
    \<and> committed (fst (batch_insert_movies bs ms c)) = committed c
    \<and> pending (fst (batch_insert_movies bs ms c)) = committed c
    \<and> (\<forall>rels tab. t_link (committed (batch_insert_relationships bs rels tab
          (snd (batch_insert_movies bs ms c)) (fst (batch_insert_movies bs ms c)))) = t_link (committed c))"
proof -
  obtain c1 r1 where s1: "execute_values insert_movie ms bs c = (c1, r1)" by force
  have k1: "committed c1 = committed c"
    using execute_values_committed [of insert_movie ms bs c, OF insert_movie_committed] s1 by simp
  obtain c2 r2 where s2: "commit c1 = (c2, r2)" by force
  have a: "snd (batch_insert_movies bs ms c) = {}
    \<and> committed (fst (batch_insert_movies bs ms c)) = committed c
    \<and> pending (fst (batch_insert_movies bs ms c)) = committed c"
  proof (cases r1)
    case (Inl e)
    then show ?thesis using s1 k1
      by (simp add: batch_insert_movies_def batch_insert_movies_try_def rollback_def)
  next
    case (Inr res)
    then obtain e where "r2 = Inl e"
      using assms s1 s2 by (auto simp: movie_insert_fails_def split: sum.splits)
    then show ?thesis using s1 s2 Inr k1 commit_fails [of c1 c2 e]
      by (simp add: batch_insert_movies_def batch_insert_movies_try_def rollback_def)
  qed
  then have "pending (fst (batch_insert_movies bs ms c)) = committed (fst (batch_insert_movies bs ms c))"
    by simp
  then show ?thesis using a no_edges_without_movies [of "fst (batch_insert_movies bs ms c)" bs] by simp
qed

text \<open>Two new movies, the second with the id of the stored one: the second row violates
  the primary key, the first is rolled back with it, and the table keeps its one row.\<close>

theorem movie_upsert_failure_rolls_back_witness:
  "movie_insert_fails 1000 [movie_tuple (example_movie 2 (Some ''B'') (Some ''tt2'') None None),
                            movie_tuple (example_movie 1 (Some ''A'') (Some ''tt1'') None None)] (stocked [])
   \<and> snd (batch_insert_movies 1000 [movie_tuple (example_movie 2 (Some ''B'') (Some ''tt2'') None None),
                            movie_tuple (example_movie 1 (Some ''A'') (Some ''tt1'') None None)] (stocked [])) = {}
   \<and> t_movies (committed (fst (batch_insert_movies 1000 [movie_tuple (example_movie 2 (Some ''B'') (Some ''tt2'') None None),
                            movie_tuple (example_movie 1 (Some ''A'') (Some ''tt1'') None None)] (stocked []))))
      = t_movies stocked_tables"
proof -
  let ?ms = "[movie_tuple (example_movie 2 (Some ''B'') (Some ''tt2'') None None),
              movie_tuple (example_movie 1 (Some ''A'') (Some ''tt1'') None None)]"
  have h: "movie_insert_fails 1000 ?ms (stocked [])" by code_simp
  have e: "committed (stocked []) = stocked_tables" by (simp add: stocked_def connect_def)
  have t1: "snd (batch_insert_movies 1000 ?ms (stocked [])) = {}"
    and t2: "committed (fst (batch_insert_movies 1000 ?ms (stocked []))) = committed (stocked [])"
    using movie_upsert_failure_rolls_back [OF h] by blast+
  have c2: "t_movies (committed (fst (batch_insert_movies 1000 ?ms (stocked [])))) = t_movies stocked_tables"
    using t2 unfolding e by simp
  show ?thesis using h t1 c2 by blast
qed

lemma resolver_failure:
  assumes "pending c = committed c" and "batch_insert_data_try bs data tab c = (c', m, Some e)"
  shows "batch_insert_data bs data tab c = (c\<lparr>plan := plan c', seq := seq c'\<rparr>, m)
    \<and> (\<forall>tab'. tab' \<noteq> tab \<longrightarrow> seq c' tab' = seq c tab')
    \<and> (m = Map.empty \<or> m = merge_rows (t_ref (committed c) tab) Map.empty)
    \<and> (\<forall>v i. m v = Some i \<longrightarrow> (i, v) \<in> set (t_ref (committed c) tab))"
proof -
  obtain c1 r1 where s1: "execute_select (\<lambda>t. t_ref t tab) c = (c1, r1)" by force
  have k1: "committed c1 = committed c" "pending c1 = pending c" "seq c1 = seq c"
    using s1 by (auto simp: execute_select_def tick_def split: list.splits bool.splits)
  have main: "committed c' = committed c \<and> (\<forall>tab'. tab' \<noteq> tab \<longrightarrow> seq c' tab' = seq c tab')
     \<and> (m = Map.empty \<or> m = merge_rows (t_ref (committed c) tab) Map.empty)"
  proof (cases r1)
    case (Inl e1)
    then show ?thesis using assms(2) s1 k1 by (simp add: batch_insert_data_try_def)
  next
    case (Inr rows)
    have rows: "rows = t_ref (committed c) tab" using select_ok [OF s1 [unfolded Inr]] assms(1) by simp
    define idm where "idm = merge_rows rows Map.empty"
    define nv where "nv = filter (\<lambda>value. idm value = None) data"
    obtain c2 r2 where s2: "execute_values (insert_ref tab) nv bs c1 = (c2, r2)" by force
    have k2: "committed c2 = committed c"
      using execute_values_committed [of "insert_ref tab" nv bs c1, OF insert_ref_committed] s2 k1 by simp
    have "\<forall>tab'. tab' \<noteq> tab \<longrightarrow> seq (fst (execute_values (insert_ref tab) nv bs c1)) tab' = seq c tab'"
    proof (rule inv_execute_values [of nv "\<lambda>x. \<forall>tab'. tab' \<noteq> tab \<longrightarrow> seq x tab' = seq c tab'" "insert_ref tab" c1 bs])
      show "\<forall>tab'. tab' \<noteq> tab \<longrightarrow> seq c1 tab' = seq c tab'" using k1 by simp
    qed (simp_all add: insert_ref_seq)
    then have q2: "\<forall>tab'. tab' \<noteq> tab \<longrightarrow> seq c2 tab' = seq c tab'" using s2 by simp
    obtain c3 r3 where s3: "commit c2 = (c3, r3)" by force
    have nn: "nv \<noteq> []" using assms(2) s1 Inr
      by (auto simp: batch_insert_data_try_def Let_def idm_def nv_def split: if_splits)
    show ?thesis
    proof (cases r2)
      case (Inl e2)
      then show ?thesis using assms(2) s1 Inr s2 nn k2 q2 rows
        by (auto simp: batch_insert_data_try_def Let_def idm_def nv_def)
    next
      case r2: (Inr res)
      then obtain e3 where r3: "r3 = Inl e3" using assms(2) s1 Inr s2 s3 nn
        by (cases r3) (auto simp: batch_insert_data_try_def Let_def idm_def nv_def)
      have "seq c3 = seq c2" "committed c3 = committed c2"
        using s3 r3 by (auto simp: commit_def tick_def split: list.splits bool.splits)
      then show ?thesis using assms(2) s1 Inr s2 r2 s3 r3 nn k2 q2 rows
        by (auto simp: batch_insert_data_try_def Let_def idm_def nv_def)
    qed
  qed
  have "rollback c' = c\<lparr>plan := plan c', seq := seq c'\<rparr>"
    using main assms(1) by (simp add: rollback_def)
  then have 1: "batch_insert_data bs data tab c = (c\<lparr>plan := plan c', seq := seq c'\<rparr>, m)"
    using assms(2) by (simp add: batch_insert_data_def)
  have 4: "\<forall>v i. m v = Some i \<longrightarrow> (i, v) \<in> set (t_ref (committed c) tab)"
    using main merge_rows_in [of "t_ref (committed c) tab" Map.empty] by auto
  show ?thesis using 1 4 main by blast
qed

text \<open>The same containment for a linker: when its insert or its commit raises, the tables
  are those of before the call.\<close>

lemma linker_failure_is_contained:
  assumes "pending c = committed c"
    and "snd (batch_insert_relationships_try bs rels tab valid c) = Inl e"
  shows "committed (batch_insert_relationships bs rels tab valid c) = committed c
    \<and> pending (batch_insert_relationships bs rels tab valid c) = committed c"
proof -
  define rels' where "rels' = filter (\<lambda>rel. fst rel \<in> valid) rels"
  obtain c1 r1 where s1: "execute_values (insert_link tab) rels' bs c = (c1, r1)" by force
  have k1: "committed c1 = committed c"
    using execute_values_committed [of "insert_link tab" rels' bs c, OF insert_link_committed] s1 by simp
  obtain c2 r2 where s2: "commit c1 = (c2, r2)" by force
  show ?thesis
  proof (cases r1)
    case (Inl e1)
    then show ?thesis using s1 k1
      by (simp add: batch_insert_relationships_def batch_insert_relationships_try_def rels'_def rollback_def)
  next
    case (Inr res)
    then have "r2 = Inl e" using assms(2) s1 s2
      by (simp add: batch_insert_relationships_try_def rels'_def)
    then show ?thesis using s1 s2 Inr k1 commit_fails [of c1 c2 e]
      by (simp add: batch_insert_relationships_def batch_insert_relationships_try_def rels'_def rollback_def)
  qed
qed

text \<open>A run whose first twelve statements and commits succeed and whose thirteenth, the
  insert into the genre join table, fails: the company edge is stored all the same.\<close>

lemma linking_continues_after_failure:
  "t_ref (committed (batch_import_movies 1000
        [example_movie 1 (Some ''T'') (Some ''tt1'') (Some ''Drama'') (Some ''Acme'')]
        (fresh (replicate 12 False @ [True])))) Genres
     = [(1, ''Drama'')]
   \<and> t_link (committed (batch_import_movies 1000
        [example_movie 1 (Some ''T'') (Some ''tt1'') (Some ''Drama'') (Some ''Acme'')]
        (fresh (replicate 12 False @ [True])))) Genres
     = []
   \<and> t_link (committed (batch_import_movies 1000
        [example_movie 1 (Some ''T'') (Some ''tt1'') (Some ''Drama'') (Some ''Acme'')]
        (fresh (replicate 12 False @ [True])))) Companies
     = [(1, 1)]"
  by code_simp

text \<open>
  C7. When the read, the insert or the commit of a resolver raises, the resolver returns all
  the same: the committed tables are those of before the call and the open transaction
  holds nothing, the sequences of the other categories are untouched, and the mapping is
  empty (the read failed) or holds the rows read from the table, each of them a stored row.
  So the next resolver and the linkers start from the tables the failed category found
  (\<open>linker_failure_is_contained\<close> and \<open>linking_continues_after_failure\<close> are the
  counterparts for the linkers).
\<close>

theorem resolver_failure_is_contained:
  assumes "pending c = committed c" and "snd (snd (batch_insert_data_try bs data tab c)) = Some e"
  shows "committed (fst (batch_insert_data bs data tab c)) = committed c
    \<and> pending (fst (batch_insert_data bs data tab c)) = committed c
    \<and> (\<forall>tab'. tab' \<noteq> tab \<longrightarrow> seq (fst (batch_insert_data bs data tab c)) tab' = seq c tab')
    \<and> (snd (batch_insert_data bs data tab c) = Map.empty
        \<or> snd (batch_insert_data bs data tab c) = merge_rows (t_ref (committed c) tab) Map.empty)
    \<and> (\<forall>v i. snd (batch_insert_data bs data tab c) v = Some i \<longrightarrow> (i, v) \<in> set (t_ref (committed c) tab))"
proof -
  obtain c' m where t: "batch_insert_data_try bs data tab c = (c', m, Some e)"
    using assms(2) by (cases "batch_insert_data_try bs data tab c") auto
  have r: "batch_insert_data bs data tab c = (c\<lparr>plan := plan c', seq := seq c'\<rparr>, m)"
    and rest: "\<forall>tab'. tab' \<noteq> tab \<longrightarrow> seq c' tab' = seq c tab'"
      "m = Map.empty \<or> m = merge_rows (t_ref (committed c) tab) Map.empty"
      "\<forall>v i. m v = Some i \<longrightarrow> (i, v) \<in> set (t_ref (committed c) tab)"
    using resolver_failure [OF assms(1) t] by blast+
  have b: "snd (batch_insert_data bs data tab c) = m"
    "committed (fst (batch_insert_data bs data tab c)) = committed c"
    "pending (fst (batch_insert_data bs data tab c)) = committed c"
    "seq (fst (batch_insert_data bs data tab c)) = seq c'"
    using r assms(1) by simp_all
  show ?thesis unfolding b using rest by blast
qed

text \<open>The server lets the read through and fails the insert of \<^verbatim>\<open>Horror\<close>: the mapping
  keeps the stored genre, the table is unchanged. In a whole run whose genre read fails,
  the company of the record is still resolved and linked.\<close>

theorem resolver_failure_is_contained_witness:
  "pending (stocked [False, True]) = committed (stocked [False, True])
   \<and> snd (snd (batch_insert_data_try 1000 [''Drama'', ''Horror''] Genres (stocked [False, True]))) = Some OperationalError
   \<and> t_ref (committed (fst (batch_insert_data 1000 [''Drama'', ''Horror''] Genres (stocked [False, True])))) Genres = [(3, ''Drama'')]
   \<and> snd (batch_insert_data 1000 [''Drama'', ''Horror''] Genres (stocked [False, True])) ''Drama'' = Some 3
   \<and> snd (batch_insert_data 1000 [''Drama'', ''Horror''] Genres (stocked [False, True])) ''Horror'' = None
   \<and> t_ref (committed (batch_import_movies 1000
        [example_movie 1 (Some ''T'') (Some ''tt1'') (Some ''Drama'') (Some ''Acme'')]
        (fresh [False, False, False, True]))) Genres = []
   \<and> t_ref (committed (batch_import_movies 1000
        [example_movie 1 (Some ''T'') (Some ''tt1'') (Some ''Drama'') (Some ''Acme'')]
        (fresh [False, False, False, True]))) Companies = [(1, ''Acme'')]
   \<and> t_link (committed (batch_import_movies 1000
        [example_movie 1 (Some ''T'') (Some ''tt1'') (Some ''Drama'') (Some ''Acme'')]
        (fresh [False, False, False, True]))) Companies = [(1, 1)]"
proof -
  let ?c = "stocked [False, True]"
  let ?r = "batch_insert_data 1000 [''Drama'', ''Horror''] Genres ?c"
  have h1: "pending ?c = committed ?c" by (simp add: stocked_def connect_def)
  have h2: "snd (snd (batch_insert_data_try 1000 [''Drama'', ''Horror''] Genres ?c)) = Some OperationalError"
    by code_simp
  have e: "t_ref (committed ?c) Genres = [(3, ''Drama'')]"
    by (simp add: stocked_def connect_def stocked_tables_def)
  have t1: "committed (fst ?r) = committed ?c"
    using resolver_failure_is_contained [OF h1 h2] by blast
  have c1: "t_ref (committed (fst ?r)) Genres = [(3, ''Drama'')]" unfolding t1 by (rule e)
  have c2: "snd ?r ''Drama'' = Some 3" by code_simp
  have c3: "snd ?r ''Horror'' = None" by code_simp
  have p1: "t_ref (committed (batch_import_movies 1000
        [example_movie 1 (Some ''T'') (Some ''tt1'') (Some ''Drama'') (Some ''Acme'')]
        (fresh [False, False, False, True]))) Genres = []" by code_simp
  have p2: "t_ref (committed (batch_import_movies 1000
        [example_movie 1 (Some ''T'') (Some ''tt1'') (Some ''Drama'') (Some ''Acme'')]
        (fresh [False, False, False, True]))) Companies = [(1, ''Acme'')]" by code_simp
  have p3: "t_link (committed (batch_import_movies 1000
        [example_movie 1 (Some ''T'') (Some ''tt1'') (Some ''Drama'') (Some ''Acme'')]
        (fresh [False, False, False, True]))) Companies = [(1, 1)]" by code_simp
  show ?thesis using h1 h2 c1 c2 c3 p1 p2 p3 by blast
qed

text \<open>
  C10. A record that the guard of line 158 skips (no title or no reference code; a record
  without release date does not reach the loops) changes neither the movie list nor the
  accumulators of the first loop; the second loop walks it all the same,
  so a mention of it whose trimmed value is in the mapping yields an edge, and when the id of
  the record is among the valid movie ids and the insert of the edges succeeds, that edge is
  in the join table.
\<close>

theorem inadmissible_record_is_still_linked:
  assumes "m \<in> set df" and "\<not> admissible m" and "field cat m = Some s"
    and "g \<in> set (split CHR '','' s)" and "ids (strip g) = Some e"
    and "build_relationships ids cat df = Inr rels"
    and "id' m \<in> valid"
    and "snd (batch_insert_relationships_try bs rels cat valid c) = Inr u"
  shows "collect_step m st = st
    \<and> collect df = collect (filter admissible df)
    \<and> (id' m, e) \<in> set rels
    \<and> (id' m, e) \<in> set (t_link (committed (batch_insert_relationships bs rels cat valid c)) cat)"
proof -
  have 1: "collect_step m st = st" using assms(2) by (simp add: collect_step_def)
  have 2: "collect df = collect (filter admissible df)"
    unfolding collect_def by (rule fold_collect_step_filter)
  have "(id' m, e) \<in> set (record_edges ids cat m)"
    using assms(3,4,5) by (force simp: record_edges_def)
  then have 3: "(id' m, e) \<in> set rels"
    using assms(1,6) by (auto simp: build_relationships_eq)
  have 4: "(id' m, e) \<in> set (t_link (committed (batch_insert_relationships bs rels cat valid c)) cat)"
    using linked_edges_persisted [OF assms(8) 3] assms(7) by simp
  show ?thesis using 1 2 3 4 by blast
qed

text \<open>The record has the id of the stored movie and no title. The run adds no movie and no
  genre, and links the stored movie 1 to the stored genre 3.\<close>

theorem inadmissible_record_is_still_linked_witness:
  "\<not> admissible (example_movie 1 None (Some ''tt9'') (Some ''Drama'') None)
   \<and> snd (batch_insert_relationships_try 1000 [(1, 3)] Genres {1} (stocked [])) = Inr ()
   \<and> (1, 3) \<in> set (t_link (committed (batch_insert_relationships 1000 [(1, 3)] Genres {1} (stocked []))) Genres)
   \<and> fst (collect [example_movie 1 None (Some ''tt9'') (Some ''Drama'') None]) = []
   \<and> snd (collect [example_movie 1 None (Some ''tt9'') (Some ''Drama'') None]) Genres = []
   \<and> t_link (committed (batch_import_movies 1000
        [example_movie 1 None (Some ''tt9'') (Some ''Drama'') None] (stocked []))) Genres = [(1, 3)]"
proof -
  let ?m = "example_movie 1 None (Some ''tt9'') (Some ''Drama'') None"
  let ?ids = "[''Drama'' \<mapsto> (3::int)]"
  have h1: "?m \<in> set [?m]" by simp
  have h2: "\<not> admissible ?m" by code_simp
  have h3: "field Genres ?m = Some ''Drama''" by (simp add: example_movie_def)
  have h4: "''Drama'' \<in> set (split CHR '','' ''Drama'')" by code_simp
  have h5: "?ids (strip ''Drama'') = Some 3" by code_simp
  have h6: "build_relationships ?ids Genres [?m] = Inr [(1, 3)]" by code_simp
  have i: "id' ?m = 1" by (simp add: example_movie_def)
  have h7: "id' ?m \<in> {1::int}" unfolding i by simp
  have h8: "snd (batch_insert_relationships_try 1000 [(1, 3)] Genres {1} (stocked [])) = Inr ()"
    by code_simp
  have t: "(id' ?m, 3) \<in> set (t_link (committed (batch_insert_relationships 1000 [(1, 3)] Genres {1} (stocked []))) Genres)"
    using inadmissible_record_is_still_linked [OF h1 h2 h3 h4 h5 h6 h7 h8] by blast
  have c1: "(1, 3) \<in> set (t_link (committed (batch_insert_relationships 1000 [(1, 3)] Genres {1} (stocked []))) Genres)"
    using t unfolding i .
  have c2: "fst (collect [?m]) = []" by code_simp
  have c3: "snd (collect [?m]) Genres = []" by code_simp
  have c4: "t_link (committed (batch_import_movies 1000 [?m] (stocked []))) Genres = [(1, 3)]"
    by code_simp
  show ?thesis using h2 h8 c1 c2 c3 c4 by blast
qed

text \<open>
  C8, as stated, fails: the loop has no test for an empty piece, so the field
  \<^verbatim>\<open>Action,\<close> of an admissible record puts the empty string into the genre accumulator;
  and a record without title adds nothing, although its genre field is present.
\<close>

theorem empty_piece_is_accumulated:
  "[] \<in> set (snd (collect [example_movie 1 (Some ''T'') (Some ''tt1'') (Some ''Action,'') None]) Genres)
   \<and> snd (collect [example_movie 1 None (Some ''tt1'') (Some ''Action'') None]) Genres = []"
  by code_simp

text \<open>
  C8, amended. For a record that passes the guard of line 158, one iteration of the first
  loop adds to the accumulator of a category exactly the trimmed pieces of the record's
  field, empty ones included, and nothing for a missing field; a record that fails the guard
  adds nothing. Over the whole data frame the accumulator holds exactly the trimmed pieces
  of the admissible records.
\<close>

theorem deduplicator_adds_trimmed_pieces:
  "set (snd (collect_step m st) cat)
     = set (snd st cat) \<union> (if admissible m then set (pieces cat m) else {})
   \<and> (field cat m = None \<longrightarrow> snd (collect_step m st) cat = snd st cat)
   \<and> set (snd (collect df) cat) = (\<Union>m \<in> set (filter admissible df). set (pieces cat m))"
proof -
  have 1: "set (snd (collect_step m st) cat)
     = set (snd st cat) \<union> (if admissible m then set (pieces cat m) else {})"
    by (simp add: collect_step_def collect_field_pieces set_set_update)
  have 2: "field cat m = None \<longrightarrow> snd (collect_step m st) cat = snd st cat"
    by (simp add: collect_step_def collect_field_def)
  have 3: "set (snd (collect df) cat) = (\<Union>m \<in> set (filter admissible df). set (pieces cat m))"
    unfolding collect_def using fold_collect_step_snd [of df "([], \<lambda>cat. [])" cat] by simp
  show ?thesis using 1 2 3 by blast
qed

text \<open>The field \<^verbatim>\<open>Action, ,Drama \<close> of an admissible record gives the three values
  \<^verbatim>\<open>Action\<close>, the empty string and \<^verbatim>\<open>Drama\<close>; its missing company field gives none.\<close>

theorem deduplicator_adds_trimmed_pieces_witness:
  "admissible (example_movie 1 (Some ''T'') (Some ''tt1'') (Some ''Action, ,Drama '') None)
   \<and> field Companies (example_movie 1 (Some ''T'') (Some ''tt1'') (Some ''Action, ,Drama '') None) = None
   \<and> set (snd (collect_step (example_movie 1 (Some ''T'') (Some ''tt1'') (Some ''Action, ,Drama '') None)
              ([], \<lambda>cat. [])) Genres) = {''Action'', [], ''Drama''}
   \<and> snd (collect_step (example_movie 1 (Some ''T'') (Some ''tt1'') (Some ''Action, ,Drama '') None)
              ([], \<lambda>cat. [])) Companies = []"
proof -
  let ?m = "example_movie 1 (Some ''T'') (Some ''tt1'') (Some ''Action, ,Drama '') None"
  let ?st = "([], \<lambda>cat. []) :: unit movie_row list \<times> (category \<Rightarrow> string list)"
  have h1: "admissible ?m" by code_simp
  have h2: "field Companies ?m = None" by (simp add: example_movie_def)
  have p: "pieces Genres ?m = [''Action'', [], ''Drama'']" by code_simp
  have t1: "set (snd (collect_step ?m ?st) Genres)
      = set (snd ?st Genres) \<union> (if admissible ?m then set (pieces Genres ?m) else {})"
    using deduplicator_adds_trimmed_pieces [of ?m ?st Genres "[]"] by blast
  have t2: "snd (collect_step ?m ?st) Companies = snd ?st Companies"
    using h2 deduplicator_adds_trimmed_pieces [of ?m ?st Companies "[]"] by blast
  have c1: "set (snd (collect_step ?m ?st) Genres) = {''Action'', [], ''Drama''}"
    using t1 h1 unfolding p by simp
  have c2: "snd (collect_step ?m ?st) Companies = []" using t2 by simp
  show ?thesis using h1 h2 c1 c2 by blast
qed

text \<open>
  C1 on a concrete input. With \<^verbatim>\<open>batch_size=1\<close> and one record with the genres \<^verbatim>\<open>A,B\<close>,
  the first run on the empty database stores both genres but links the movie to the second
  one only: the resolver's mapping holds the rows returned by the last page. The second run
  reads both genres from the table and adds the edge to the first one, so two runs leave a
  join table that one run does not. The same holds with \<^verbatim>\<open>batch_size=2\<close> and three
  genres. (No row is duplicated by the second run: \<open>run_creates_no_duplicates\<close>.)
\<close>

theorem second_run_adds_edges:
  "t_ref (committed (batch_import_movies 1 two_genres (fresh []))) Genres = [(1, ''A''), (2, ''B'')]
   \<and> t_link (committed (batch_import_movies 1 two_genres (fresh []))) Genres = [(1, 2)]
   \<and> t_link (committed (batch_import_movies 1 two_genres
        (reopen (batch_import_movies 1 two_genres (fresh []))))) Genres = [(1, 2), (1, 1)]
   \<and> t_link (committed (batch_import_movies 2
        [example_movie 1 (Some ''T'') (Some ''tt1'') (Some ''A,B,C'') None] (fresh []))) Genres = [(1, 3)]
   \<and> t_link (committed (batch_import_movies 2
        [example_movie 1 (Some ''T'') (Some ''tt1'') (Some ''A,B,C'') None]
        (reopen (batch_import_movies 2
          [example_movie 1 (Some ''T'') (Some ''tt1'') (Some ''A,B,C'') None] (fresh []))))) Genres
      = [(1, 3), (1, 1), (1, 2)]"
  by code_simp

text \<open>
  C2 on a concrete input. With \<^verbatim>\<open>batch_size=1\<close> the two new values go to the table in two
  statements, both are committed, and \<^verbatim>\<open>cursor.fetchall()\<close> returns the row of the second
  statement only: the first value is stored and is not a key of the mapping, in either
  iteration order of the set.
\<close>

theorem mapping_misses_earlier_pages:
  "t_ref (committed (fst (batch_insert_data 1 [''a'', ''b''] Genres (fresh [])))) Genres = [(1, ''a''), (2, ''b'')]
   \<and> snd (batch_insert_data 1 [''a'', ''b''] Genres (fresh [])) ''a'' = None
   \<and> snd (batch_insert_data 1 [''a'', ''b''] Genres (fresh [])) ''b'' = Some 2
   \<and> t_ref (committed (fst (batch_insert_data 1 [''b'', ''a''] Genres (fresh [])))) Genres = [(1, ''b''), (2, ''a'')]
   \<and> snd (batch_insert_data 1 [''b'', ''a''] Genres (fresh [])) ''b'' = None
   \<and> snd (batch_insert_data 1 [''b'', ''a''] Genres (fresh [])) ''a'' = Some 2"
  by code_simp

end
